theory Spec2Isabelle
  imports Complex_Main
begin

section \<open>Arrays and errors\<close>

text \<open>
  The filter of \<^verbatim>\<open>es_ekf.py\<close> computes on numpy arrays of 64-bit floats. The embedding
  computes on the reals: rounding, infinities and NaN are not modelled, every arithmetic
  operation of the source is the exact one.

  A row of three floats (a position, a velocity, an inertial sample) is a triple, a
  quaternion row \<open>[w, x, y, z]\<close> a quadruple. The larger arrays (the 9x9 covariance, the
  Jacobians, the 9-vector of the error state) are index functions; every shape of the
  source is a literal, so the inner dimension of a product is an explicit argument.
\<close>

type_synonym vec3 = "real \<times> real \<times> real"
type_synonym mat3 = "vec3 \<times> vec3 \<times> vec3"
type_synonym quat = "real \<times> real \<times> real \<times> real"
type_synonym vec = "nat \<Rightarrow> real"
type_synonym mat = "nat \<Rightarrow> nat \<Rightarrow> real"

datatype error = IndexError | LinAlgError

definition seq :: "error + 'a \<Rightarrow> ('a \<Rightarrow> error + 'b) \<Rightarrow> error + 'b" where
  "seq m f = (case m of Inl e \<Rightarrow> Inl e | Inr x \<Rightarrow> f x)"

text \<open>\<open>xs[i]\<close> and \<open>xs[i] = v\<close> with a non-negative index: out of range raises.\<close>

definition idx :: "'a list \<Rightarrow> nat \<Rightarrow> error + 'a" where
  "idx xs i = (if i < length xs then Inr (xs ! i) else Inl IndexError)"

definition upd :: "'a list \<Rightarrow> nat \<Rightarrow> 'a \<Rightarrow> error + 'a list" where
  "upd xs i v = (if i < length xs then Inr (xs[i := v]) else Inl IndexError)"

subsection \<open>Rows of three\<close>

fun vadd :: "vec3 \<Rightarrow> vec3 \<Rightarrow> vec3" where
  "vadd (a, b, c) (x, y, z) = (a + x, b + y, c + z)"

fun vsub :: "vec3 \<Rightarrow> vec3 \<Rightarrow> vec3" where
  "vsub (a, b, c) (x, y, z) = (a - x, b - y, c - z)"

fun smul :: "real \<Rightarrow> vec3 \<Rightarrow> vec3" where
  "smul s (x, y, z) = (s * x, s * y, s * z)"

text \<open>\<open>np.dot(C, f)\<close> of a 3x3 matrix (given by its rows) and a row of three.\<close>

fun mv3 :: "mat3 \<Rightarrow> vec3 \<Rightarrow> vec3" where
  "mv3 ((a, b, c), (d, e, f), (g, h, i)) (x, y, z) =
     (a * x + b * y + c * z, d * x + e * y + f * z, g * x + h * y + i * z)"

text \<open>A row of three as a 1-d array, a 3x3 matrix as a 2-d array, and the slice
  \<open>x[a:a+3]\<close> of a 1-d array.\<close>

fun arr3 :: "vec3 \<Rightarrow> vec" where
  "arr3 (x, y, z) = (\<lambda>i. if i = 0 then x else if i = 1 then y else if i = 2 then z else 0)"

fun arr33 :: "mat3 \<Rightarrow> mat" where
  "arr33 (r0, r1, r2) =
     (\<lambda>i j. if i = 0 then arr3 r0 j else if i = 1 then arr3 r1 j
            else if i = 2 then arr3 r2 j else 0)"

definition slice3 :: "vec \<Rightarrow> nat \<Rightarrow> vec3" where
  "slice3 x a = (x a, x (a + 1), x (a + 2))"

subsection \<open>2-d arrays\<close>

definition zeros :: mat where
  "zeros = (\<lambda>i j. 0)"

definition eye :: "nat \<Rightarrow> mat" where
  "eye n = (\<lambda>i j. if i = j \<and> i < n then 1 else 0)"

text \<open>\<open>A.dot(B)\<close> with inner dimension \<open>n\<close>, \<open>A.dot(x)\<close> for a 1-d \<open>x\<close>, \<open>A.T\<close>,
  \<open>A + B\<close>, \<open>A - B\<close>, \<open>A * s\<close>, \<open>s * A\<close> and \<open>-A\<close>.\<close>

definition dot :: "nat \<Rightarrow> mat \<Rightarrow> mat \<Rightarrow> mat" where
  "dot n A B = (\<lambda>i j. \<Sum>k<n. A i k * B k j)"

definition dotv :: "nat \<Rightarrow> mat \<Rightarrow> vec \<Rightarrow> vec" where
  "dotv n A x = (\<lambda>i. \<Sum>k<n. A i k * x k)"

definition T :: "mat \<Rightarrow> mat" where
  "T A = (\<lambda>i j. A j i)"

definition madd :: "mat \<Rightarrow> mat \<Rightarrow> mat" where
  "madd A B = (\<lambda>i j. A i j + B i j)"

definition msub :: "mat \<Rightarrow> mat \<Rightarrow> mat" where
  "msub A B = (\<lambda>i j. A i j - B i j)"

definition scale :: "mat \<Rightarrow> real \<Rightarrow> mat" where
  "scale A s = (\<lambda>i j. A i j * s)"

definition lscale :: "real \<Rightarrow> mat \<Rightarrow> mat" where
  "lscale s A = (\<lambda>i j. s * A i j)"

definition mneg :: "mat \<Rightarrow> mat" where
  "mneg A = (\<lambda>i j. - A i j)"

text \<open>The slice assignment \<open>A[r0:r1, c0:c1] = B\<close> and the in-place elementwise product
  \<open>A[r0:r1, c0:c1] *= B\<close>, for a \<open>B\<close> of the block's shape.\<close>

definition assign :: "mat \<Rightarrow> nat \<Rightarrow> nat \<Rightarrow> nat \<Rightarrow> nat \<Rightarrow> mat \<Rightarrow> mat" where
  "assign A r0 r1 c0 c1 B =
     (\<lambda>i j. if r0 \<le> i \<and> i < r1 \<and> c0 \<le> j \<and> j < c1 then B (i - r0) (j - c0) else A i j)"

definition imul :: "mat \<Rightarrow> nat \<Rightarrow> nat \<Rightarrow> nat \<Rightarrow> nat \<Rightarrow> mat \<Rightarrow> mat" where
  "imul A r0 r1 c0 c1 B =
     (\<lambda>i j. if r0 \<le> i \<and> i < r1 \<and> c0 \<le> j \<and> j < c1 then A i j * B (i - r0) (j - c0)
            else A i j)"

subsection \<open>\<open>np.linalg.inv\<close> on a 3x3 array\<close>

text \<open>
  numpy's \<open>inv\<close> returns the inverse of a square matrix and raises \<open>LinAlgError\<close> on a
  singular one. The only call of the source is on the 3x3 innovation covariance; over
  the reals the matrix is singular exactly when its determinant is 0, and the inverse
  is the adjugate over the determinant.
\<close>

definition det3 :: "mat \<Rightarrow> real" where
  "det3 A = A 0 0 * (A 1 1 * A 2 2 - A 1 2 * A 2 1)
          - A 0 1 * (A 1 0 * A 2 2 - A 1 2 * A 2 0)
          + A 0 2 * (A 1 0 * A 2 1 - A 1 1 * A 2 0)"

definition adj3 :: "mat \<Rightarrow> mat" where
  "adj3 A = (\<lambda>i j.
     A ((j + 1) mod 3) ((i + 1) mod 3) * A ((j + 2) mod 3) ((i + 2) mod 3)
   - A ((j + 1) mod 3) ((i + 2) mod 3) * A ((j + 2) mod 3) ((i + 1) mod 3))"

definition linalg_inv :: "mat \<Rightarrow> error + mat" where
  "linalg_inv A = (if det3 A = 0 then Inl LinAlgError
                   else Inr (\<lambda>i j. if i < 3 \<and> j < 3 then adj3 A i j / det3 A else 0))"

section \<open>The rotation algebra\<close>

text \<open>
  Line 5 imports \<open>skew_symmetric\<close> and the class \<open>Quaternion\<close> from the module
  \<open>rotations\<close>, which is not among the sources. The filter is therefore a function of
  that module: the operations it calls are the fields of a record. A quaternion object is
  its row \<open>[w, x, y, z]\<close>; \<open>quat_mult_left s q\<close> is \<open>s.quat_mult_left(q)\<close> for the receiver
  \<open>s\<close>, and likewise \<open>quat_mult_right\<close>.
\<close>

record rotations =
  quat_euler :: "vec3 \<Rightarrow> quat"
  quat_axis_angle :: "vec3 \<Rightarrow> quat"
  to_mat :: "quat \<Rightarrow> mat3"
  quat_mult_left :: "quat \<Rightarrow> quat \<Rightarrow> quat"
  quat_mult_right :: "quat \<Rightarrow> quat \<Rightarrow> quat"
  skew_symmetric :: "vec3 \<Rightarrow> mat3"

section \<open>Data\<close>

text \<open>A \<open>StampedData\<close> object has the arrays \<open>data\<close> and \<open>t\<close>; of the ground truth the
  filter reads \<open>p\<close>, \<open>v\<close> and \<open>r\<close>.\<close>

record stamped =
  sdata :: "vec3 list"
  st :: "real list"

record ground_truth =
  gt_p :: "vec3 list"
  gt_v :: "vec3 list"
  gt_r :: "vec3 list"

record dataset =
  gt :: ground_truth
  imu_f :: stamped
  imu_w :: stamped
  gnss :: stamped
  lidar :: stamped

text \<open>Lines 66-82: the LIDAR positions are moved to the IMU frame once, before the loop.\<close>

definition C_li :: mat3 where
  "C_li = (( 0.99376, -0.09722,  0.05466),
           ( 0.09971,  0.99401, -0.04475),
           (-0.04998,  0.04992,  0.9975 ))"

definition t_i_li :: vec3 where
  "t_i_li = (0.5, 0.1, 0.5)"

definition calibrate :: "dataset \<Rightarrow> dataset" where
  "calibrate d =
     d\<lparr>lidar := (lidar d)\<lparr>sdata := map (\<lambda>x. vadd (mv3 C_li x) t_i_li) (sdata (lidar d))\<rparr>\<rparr>"

section \<open>Constants (lines 113-125)\<close>

definition var_imu_f :: real where "var_imu_f = 0.01"
definition var_imu_w :: real where "var_imu_w = 0.01"
definition var_gnss :: real where "var_gnss = 10"
definition var_lidar :: real where "var_lidar = 1"

definition g :: vec3 where
  "g = (0, 0, -9.81)"

definition l_jac :: mat where
  "l_jac = assign zeros 3 9 0 6 (eye 6)"

definition h_jac :: mat where
  "h_jac = assign zeros 0 3 0 3 (eye 3)"

section \<open>Measurement update (lines 151-163)\<close>

definition r_cov :: "real \<Rightarrow> mat" where
  "r_cov sensor_var = scale (eye 3) sensor_var"

definition innovation_cov :: "real \<Rightarrow> mat \<Rightarrow> mat" where
  "innovation_cov sensor_var p_cov_check =
     madd (dot 9 (dot 9 h_jac p_cov_check) (T h_jac)) (r_cov sensor_var)"

definition k_gain :: "real \<Rightarrow> mat \<Rightarrow> error + mat" where
  "k_gain sensor_var p_cov_check =
     seq (linalg_inv (innovation_cov sensor_var p_cov_check))
       (\<lambda>s_inv. Inr (dot 3 (dot 9 p_cov_check (T h_jac)) s_inv))"

definition measurement_update ::
  "rotations \<Rightarrow> real \<Rightarrow> mat \<Rightarrow> vec3 \<Rightarrow> vec3 \<Rightarrow> vec3 \<Rightarrow> quat \<Rightarrow> error + (vec3 \<times> vec3 \<times> quat \<times> mat)"
where
  "measurement_update R sensor_var p_cov_check y_k p_check v_check q_check =
     seq (k_gain sensor_var p_cov_check) (\<lambda>K.
       let x_error = dotv 3 K (arr3 (vsub y_k p_check));
           p_hat = vadd p_check (slice3 x_error 0);
           v_hat = vadd v_check (slice3 x_error 3);
           q_hat = quat_mult_left R (quat_euler R (slice3 x_error 6)) q_check;
           p_cov_hat = dot 9 (msub (eye 9) (dot 3 K h_jac)) p_cov_check
       in Inr (p_hat, v_hat, q_hat, p_cov_hat))"

section \<open>The main filter loop (lines 132-143 and 171-203)\<close>

record estimate =
  p_est :: "vec3 list"
  v_est :: "vec3 list"
  q_est :: "quat list"
  p_cov :: "mat list"
  gnss_i :: nat
  lidar_i :: nat

text \<open>Lines 132-143. \<open>p_est[0] = gt.p[0]\<close> reads the ground truth and writes row 0 of an
  array with one row per inertial sample; either can be out of range.\<close>

definition init :: "rotations \<Rightarrow> dataset \<Rightarrow> error + estimate" where
  "init R d =
     (let n = length (sdata (imu_f d)) in
      seq (idx (gt_p (gt d)) 0) (\<lambda>p0.
      seq (upd (replicate n (0, 0, 0)) 0 p0) (\<lambda>ps.
      seq (idx (gt_v (gt d)) 0) (\<lambda>v0.
      seq (upd (replicate n (0, 0, 0)) 0 v0) (\<lambda>vs.
      seq (idx (gt_r (gt d)) 0) (\<lambda>r0.
      seq (upd (replicate n (0, 0, 0, 0)) 0 (quat_euler R r0)) (\<lambda>qs.
      seq (upd (replicate n zeros) 0 zeros) (\<lambda>cs.
      Inr \<lparr>p_est = ps, v_est = vs, q_est = qs, p_cov = cs, gnss_i = 0, lidar_i = 0\<rparr>))))))))"

text \<open>Lines 175-182: the nominal state of step \<open>k\<close> from the one of step \<open>k - 1\<close>.\<close>

definition imu_update ::
  "rotations \<Rightarrow> real \<Rightarrow> vec3 \<Rightarrow> vec3 \<Rightarrow> quat \<Rightarrow> vec3 \<Rightarrow> vec3 \<Rightarrow> vec3 \<times> vec3 \<times> quat" where
  "imu_update R delta_t p v q f w =
     (let C_ns = to_mat R q;
          C_ns_d_f_km = mv3 C_ns f;
          p' = vadd (vadd p (smul delta_t v)) (smul (delta_t ^ 2 / 2) (vadd C_ns_d_f_km g));
          v' = vadd v (smul delta_t (vadd C_ns_d_f_km g));
          q_fr_w = quat_axis_angle R (smul delta_t w)
      in (p', v', quat_mult_right R q_fr_w q))"

text \<open>Lines 185-187, 190-192 and 193.\<close>

definition f_ja_km :: "rotations \<Rightarrow> real \<Rightarrow> vec3 \<Rightarrow> mat" where
  "f_ja_km R delta_t C_ns_d_f_km =
     assign (assign (eye 9) 0 3 3 6 (scale (eye 3) delta_t))
       3 6 6 9 (scale (mneg (arr33 (skew_symmetric R C_ns_d_f_km))) delta_t)"

definition q_cov_km :: "real \<Rightarrow> mat" where
  "q_cov_km delta_t =
     imul (imul (eye 6) 0 3 0 3 (scale (lscale (delta_t ^ 2) (eye 3)) var_imu_f))
       3 6 3 6 (scale (lscale (delta_t ^ 2) (eye 3)) var_imu_w)"

definition cov_update :: "rotations \<Rightarrow> real \<Rightarrow> vec3 \<Rightarrow> mat \<Rightarrow> mat" where
  "cov_update R delta_t C_ns_d_f_km P =
     madd (dot 9 (dot 9 (f_ja_km R delta_t C_ns_d_f_km) P) (T (f_ja_km R delta_t C_ns_d_f_km)))
          (dot 6 (dot 6 l_jac (q_cov_km delta_t)) (T l_jac))"

text \<open>Lines 172-193 of the loop body, for an index \<open>k\<close> of \<open>range(1, N)\<close> (so \<open>k - 1\<close> is
  never negative). The reads come first and the four writes after them: an index out of
  range raises the same \<open>IndexError\<close> wherever it stands, and an exception ends the
  script, so the order of reads and writes between themselves is not observable.\<close>

definition predict :: "rotations \<Rightarrow> dataset \<Rightarrow> nat \<Rightarrow> estimate \<Rightarrow> error + estimate" where
  "predict R d k s =
     seq (idx (st (imu_f d)) k) (\<lambda>tk.
     seq (idx (st (imu_f d)) (k - 1)) (\<lambda>tk1.
     let delta_t = tk - tk1 in
     seq (idx (q_est s) (k - 1)) (\<lambda>q.
     seq (idx (sdata (imu_f d)) (k - 1)) (\<lambda>f.
     seq (idx (p_est s) (k - 1)) (\<lambda>p.
     seq (idx (v_est s) (k - 1)) (\<lambda>v.
     seq (idx (sdata (imu_w d)) (k - 1)) (\<lambda>w.
     case imu_update R delta_t p v q f w of (p', v', q') \<Rightarrow>
     seq (upd (p_est s) k p') (\<lambda>ps.
     seq (upd (v_est s) k v') (\<lambda>vs.
     seq (upd (q_est s) k q') (\<lambda>qs.
     seq (idx (p_cov s) (k - 1)) (\<lambda>P.
     seq (upd (p_cov s) k (cov_update R delta_t (mv3 (to_mat R q) f) P)) (\<lambda>cs.
     Inr (s\<lparr>p_est := ps, v_est := vs, q_est := qs, p_cov := cs\<rparr>)))))))))))))"

text \<open>Lines 196-197 and 201-202: the update of row \<open>k\<close> by a measurement \<open>y\<close>.\<close>

definition correct :: "rotations \<Rightarrow> real \<Rightarrow> vec3 \<Rightarrow> nat \<Rightarrow> estimate \<Rightarrow> error + estimate" where
  "correct R sensor_var y k s =
     seq (idx (p_cov s) k) (\<lambda>P.
     seq (idx (p_est s) k) (\<lambda>p.
     seq (idx (v_est s) k) (\<lambda>v.
     seq (idx (q_est s) k) (\<lambda>q.
     seq (measurement_update R sensor_var P y p v q) (\<lambda>(p_hat, v_hat, q_hat, p_cov_hat).
     seq (upd (p_est s) k p_hat) (\<lambda>ps.
     seq (upd (v_est s) k v_hat) (\<lambda>vs.
     seq (upd (q_est s) k q_hat) (\<lambda>qs.
     seq (upd (p_cov s) k p_cov_hat) (\<lambda>cs.
     Inr (s\<lparr>p_est := ps, v_est := vs, q_est := qs, p_cov := cs\<rparr>))))))))))"

text \<open>Line 195 and line 200: the two gates. \<open>and\<close> reads the timestamp at the cursor only
  when the cursor is below the length it is compared with.\<close>

definition gnss_due :: "dataset \<Rightarrow> nat \<Rightarrow> estimate \<Rightarrow> error + bool" where
  "gnss_due d k s =
     (if gnss_i s < length (sdata (gnss d)) then
        seq (idx (st (imu_f d)) k) (\<lambda>tk.
        seq (idx (st (gnss d)) (gnss_i s)) (\<lambda>tg. Inr (tk = tg)))
      else Inr False)"

definition lidar_due :: "dataset \<Rightarrow> nat \<Rightarrow> estimate \<Rightarrow> error + bool" where
  "lidar_due d k s =
     (if lidar_i s < length (st (lidar d)) then
        seq (idx (st (lidar d)) (lidar_i s)) (\<lambda>tl.
        seq (idx (st (imu_f d)) (k - 1)) (\<lambda>tk1. Inr (tl = tk1)))
      else Inr False)"

text \<open>Lines 195-198 and 200-203.\<close>

definition gnss_step :: "rotations \<Rightarrow> dataset \<Rightarrow> nat \<Rightarrow> estimate \<Rightarrow> error + estimate" where
  "gnss_step R d k s =
     seq (gnss_due d k s) (\<lambda>due.
     if due then
       seq (idx (sdata (gnss d)) (gnss_i s)) (\<lambda>y.
       seq (correct R var_gnss y k s) (\<lambda>s'. Inr (s'\<lparr>gnss_i := gnss_i s' + 1\<rparr>)))
     else Inr s)"

definition lidar_step :: "rotations \<Rightarrow> dataset \<Rightarrow> nat \<Rightarrow> estimate \<Rightarrow> error + estimate" where
  "lidar_step R d k s =
     seq (lidar_due d k s) (\<lambda>due.
     if due then
       seq (idx (sdata (lidar d)) (lidar_i s)) (\<lambda>y.
       seq (correct R var_lidar y k s) (\<lambda>s'. Inr (s'\<lparr>lidar_i := lidar_i s' + 1\<rparr>)))
     else Inr s)"

definition step :: "rotations \<Rightarrow> dataset \<Rightarrow> nat \<Rightarrow> estimate \<Rightarrow> error + estimate" where
  "step R d k s = seq (predict R d k s) (\<lambda>s1. seq (gnss_step R d k s1) (lidar_step R d k))"

text \<open>\<open>for k in range(1, N)\<close>: the body on each index in turn, stopping at the first
  exception.\<close>

fun loop :: "(nat \<Rightarrow> 's \<Rightarrow> error + 's) \<Rightarrow> nat list \<Rightarrow> 's \<Rightarrow> error + 's" where
  "loop body [] s = Inr s"
| "loop body (k # ks) s = seq (body k s) (loop body ks)"

definition run :: "rotations \<Rightarrow> dataset \<Rightarrow> error + estimate" where
  "run R d0 =
     (let d = calibrate d0 in
      seq (init R d) (loop (step R d) [1..<length (sdata (imu_f d))]))"

section \<open>The statements of the specification\<close>

text \<open>The matrices of sections 3 and 4 of the specification, written from its words:
  \<open>F\<close> is the identity plus \<open>I\<^sub>3 \<Delta>t\<close> at rows 0-2, columns 3-5, plus \<open>- S \<Delta>t\<close> at rows 3-5,
  columns 6-8, for \<open>S\<close> the skew-symmetric matrix of the rotated specific force; \<open>Q\<close> is
  \<open>diag(\<Delta>t\<^sup>2 var\<^sub>f I\<^sub>3, \<Delta>t\<^sup>2 var\<^sub>\<omega> I\<^sub>3)\<close>; \<open>L\<close> has \<open>I\<^sub>6\<close> at rows 3-8 and is zero elsewhere;
  \<open>H = [I\<^sub>3 | 0 | 0]\<close>; \<open>S = H P H\<^sup>T + \<sigma>\<^sup>2 I\<^sub>3\<close>.\<close>

definition F_spec :: "real \<Rightarrow> mat \<Rightarrow> mat" where
  "F_spec dt S = (\<lambda>i j.
     (if i = j \<and> i < 9 then 1 else 0)
   + (if i < 3 \<and> j = i + 3 then dt else 0)
   + (if 3 \<le> i \<and> i < 6 \<and> 6 \<le> j \<and> j < 9 then - S (i - 3) (j - 6) * dt else 0))"

definition Q_spec :: "real \<Rightarrow> real \<Rightarrow> real \<Rightarrow> mat" where
  "Q_spec dt var_f var_w = (\<lambda>i j.
     if i = j \<and> i < 3 then dt ^ 2 * var_f
     else if i = j \<and> i < 6 then dt ^ 2 * var_w else 0)"

definition L_spec :: mat where
  "L_spec = (\<lambda>i j. if 3 \<le> i \<and> i < 9 \<and> j < 6 \<and> i = j + 3 then 1 else 0)"

definition H_spec :: mat where
  "H_spec = (\<lambda>i j. if i < 3 \<and> j = i then 1 else 0)"

definition S_spec :: "real \<Rightarrow> mat \<Rightarrow> mat" where
  "S_spec var P =
     madd (dot 9 (dot 9 H_spec P) (T H_spec)) (\<lambda>i j. if i = j \<and> i < 3 then var else 0)"

text \<open>The corrected orientation as claim C3 words it: the quaternion built from the
  rotation vector \<open>\<delta>x[6:9]\<close>, with the constructor of the rotation algebra that takes a
  rotation (axis-angle) vector, composed on the left of \<open>q\<close>; \<open>\<delta>x = K (y - p)\<close> and
  \<open>K = P H\<^sup>T S\<^sup>-\<^sup>1\<close>.\<close>

definition q_hat_spec :: "rotations \<Rightarrow> real \<Rightarrow> mat \<Rightarrow> vec3 \<Rightarrow> vec3 \<Rightarrow> quat \<Rightarrow> error + quat" where
  "q_hat_spec R var P y p q =
     seq (linalg_inv (S_spec var P)) (\<lambda>Sinv.
       let K = dot 3 (dot 9 P (T H_spec)) Sinv;
           dx = dotv 3 K (arr3 (vsub y p))
       in Inr (quat_mult_left R (quat_axis_angle R (slice3 dx 6)) q))"

text \<open>A 9x9 covariance is symmetric and positive semi-definite; the trace of its position
  block.\<close>

definition symmetric9 :: "mat \<Rightarrow> bool" where
  "symmetric9 P \<longleftrightarrow> (\<forall>i<9. \<forall>j<9. P i j = P j i)"

definition psd9 :: "mat \<Rightarrow> bool" where
  "psd9 P \<longleftrightarrow> (\<forall>x. 0 \<le> (\<Sum>i<9. \<Sum>j<9. x i * P i j * x j))"

definition trace_pos :: "mat \<Rightarrow> real" where
  "trace_pos P = P 0 0 + P 1 1 + P 2 2"

text \<open>The quadratic form of the symmetric 3x3 matrix with rows \<open>(a, b, c)\<close>, \<open>(b, d, e)\<close>,
  \<open>(c, e, f)\<close>.\<close>

definition qf3 ::
  "real \<Rightarrow> real \<Rightarrow> real \<Rightarrow> real \<Rightarrow> real \<Rightarrow> real \<Rightarrow> real \<Rightarrow> real \<Rightarrow> real \<Rightarrow> real" where
  "qf3 a b c d e f x y z =
     a * x * x + d * y * y + f * z * z + 2 * b * x * y + 2 * c * x * z + 2 * e * y * z"

text \<open>The squared norm of a quaternion row, and what the unit-norm invariant asks of the
  rotation algebra: its two constructors return unit quaternions and the norm of a
  product is the product of the norms.\<close>

fun norm2 :: "quat \<Rightarrow> real" where
  "norm2 (w, x, y, z) = w * w + x * x + y * y + z * z"

definition unit_preserving :: "rotations \<Rightarrow> bool" where
  "unit_preserving R \<longleftrightarrow>
     (\<forall>e. norm2 (quat_euler R e) = 1) \<and>
     (\<forall>a. norm2 (quat_axis_angle R a) = 1) \<and>
     (\<forall>s q. norm2 (quat_mult_left R s q) = norm2 s * norm2 q) \<and>
     (\<forall>s q. norm2 (quat_mult_right R s q) = norm2 s * norm2 q)"

definition unit_rows :: "nat \<Rightarrow> estimate \<Rightarrow> bool" where
  "unit_rows n s \<longleftrightarrow> (\<forall>i<n. norm2 (q_est s ! i) = 1)"

text \<open>The indices that step \<open>k\<close> of the loop reads and writes before the gates are in
  range.\<close>

definition rows_ok :: "dataset \<Rightarrow> nat \<Rightarrow> estimate \<Rightarrow> bool" where
  "rows_ok d k s \<longleftrightarrow>
     1 \<le> k \<and> k < length (st (imu_f d)) \<and> k \<le> length (sdata (imu_f d)) \<and>
     k \<le> length (sdata (imu_w d)) \<and> k < length (p_est s) \<and> k < length (v_est s) \<and>
     k < length (q_est s) \<and> k < length (p_cov s)"

text \<open>The two gates of step \<open>k\<close> as the specification words them.\<close>

definition gnss_match :: "dataset \<Rightarrow> nat \<Rightarrow> estimate \<Rightarrow> bool" where
  "gnss_match d k s \<longleftrightarrow>
     gnss_i s < length (sdata (gnss d)) \<and> st (gnss d) ! gnss_i s = st (imu_f d) ! k"

definition lidar_match :: "dataset \<Rightarrow> nat \<Rightarrow> estimate \<Rightarrow> bool" where
  "lidar_match d k s \<longleftrightarrow>
     lidar_i s < length (st (lidar d)) \<and> st (lidar d) ! lidar_i s = st (imu_f d) ! (k - 1)"

section \<open>A rotation algebra\<close>

text \<open>Modelled from the spec: the Rotation Algebra capability of section 6 (the module
  \<open>rotations\<close>, which is not among the sources). The specification names its operations
  and does not define them; here they have their textbook meaning for unit quaternions
  \<open>[w, x, y, z]\<close> under the Hamilton product. The theorems below hold for every rotation
  algebra; this one instantiates them.\<close>

text \<open>Modelled from the spec: skew-symmetric(vector3), the matrix of the cross product.\<close>

fun skew3 :: "vec3 \<Rightarrow> mat3" where
  "skew3 (a, b, c) = ((0, - c, b), (c, 0, - a), (- b, a, 0))"

text \<open>Modelled from the spec: the quaternion product behind left-multiply and
  right-multiply.\<close>

fun qmul :: "quat \<Rightarrow> quat \<Rightarrow> quat" where
  "qmul (w1, x1, y1, z1) (w2, x2, y2, z2) =
     (w1 * w2 - x1 * x2 - y1 * y2 - z1 * z2,
      w1 * x2 + x1 * w2 + y1 * z2 - z1 * y2,
      w1 * y2 - x1 * z2 + y1 * w2 + z1 * x2,
      w1 * z2 + x1 * y2 - y1 * x2 + z1 * w2)"

text \<open>Modelled from the spec: construct-quaternion-from-Euler(roll, pitch, yaw).\<close>

fun euler_quat :: "vec3 \<Rightarrow> quat" where
  "euler_quat (roll, pitch, yaw) =
     (let cr = cos (roll / 2); sr = sin (roll / 2);
          cp = cos (pitch / 2); sp = sin (pitch / 2);
          cy = cos (yaw / 2); sy = sin (yaw / 2)
      in (cr * cp * cy + sr * sp * sy, sr * cp * cy - cr * sp * sy,
          cr * sp * cy + sr * cp * sy, cr * cp * sy - sr * sp * cy))"

text \<open>Modelled from the spec: construct-quaternion-from-axis-angle(vector).\<close>

fun axis_angle_quat :: "vec3 \<Rightarrow> quat" where
  "axis_angle_quat (a, b, c) =
     (let n = sqrt (a * a + b * b + c * c) in
      if n = 0 then (1, 0, 0, 0)
      else (cos (n / 2), a / n * sin (n / 2), b / n * sin (n / 2), c / n * sin (n / 2)))"

text \<open>Modelled from the spec: quaternion-to-rotation-matrix().\<close>

fun quat_mat :: "quat \<Rightarrow> mat3" where
  "quat_mat (w, x, y, z) =
     ((w * w + x * x - y * y - z * z, 2 * (x * y - w * z), 2 * (x * z + w * y)),
      (2 * (x * y + w * z), w * w - x * x + y * y - z * z, 2 * (y * z - w * x)),
      (2 * (x * z - w * y), 2 * (y * z + w * x), w * w - x * x - y * y + z * z))"

text \<open>Modelled from the spec: the capability as a whole. The receiver of left-multiply
  stands on the left of the product, the receiver of right-multiply on the right.\<close>

definition hamilton :: rotations where
  "hamilton = \<lparr>quat_euler = euler_quat, quat_axis_angle = axis_angle_quat, to_mat = quat_mat,
     quat_mult_left = (\<lambda>s q. qmul s q), quat_mult_right = (\<lambda>s q. qmul q s),
     skew_symmetric = skew3\<rparr>"

section \<open>Small data sets\<close>

text \<open>Two inertial samples two seconds apart; a GNSS fix stamped with the second and a
  LIDAR fix stamped with the first.\<close>

definition d_two :: dataset where
  "d_two = \<lparr>gt = \<lparr>gt_p = [(0, 0, 0)], gt_v = [(1, 0, 0)], gt_r = [(0, 0, 0)]\<rparr>,
     imu_f = \<lparr>sdata = [(1, 0, 9.81), (0, 0, 9.81)], st = [0, 2]\<rparr>,
     imu_w = \<lparr>sdata = [(0, 0, 0), (0, 0, 0)], st = [0, 2]\<rparr>,
     gnss = \<lparr>sdata = [(5, 0, 0)], st = [2]\<rparr>,
     lidar = \<lparr>sdata = [(0, 0, 0)], st = [0]\<rparr>\<rparr>"

definition s_two :: estimate where
  "s_two = \<lparr>p_est = [(0, 0, 0), (0, 0, 0)], v_est = [(1, 0, 0), (0, 0, 0)],
     q_est = [(1, 0, 0, 0), (0, 0, 0, 0)], p_cov = [zeros, zeros], gnss_i = 0, lidar_i = 0\<rparr>"

text \<open>The same arrays with the identity as the covariance of row 0.\<close>

definition s_pos :: estimate where
  "s_pos = \<lparr>p_est = [(0, 0, 0), (0, 0, 0)], v_est = [(1, 0, 0), (0, 0, 0)],
     q_est = [(1, 0, 0, 0), (0, 0, 0, 0)], p_cov = [eye 9, zeros], gnss_i = 0, lidar_i = 0\<rparr>"

text \<open>A symmetric positive semi-definite covariance of rank one, \<open>u u\<^sup>T\<close> for
  \<open>u = (1, 0, 0, 0, 0, 0, \<pi>, \<pi>, 0)\<close>: the position along the first axis is correlated
  with the rotation about the first two.\<close>

definition u_rot :: vec where
  "u_rot = (\<lambda>i. if i = 0 then 1 else if i = 6 \<or> i = 7 then pi else 0)"

definition P_rot :: mat where
  "P_rot = (\<lambda>i j. u_rot i * u_rot j)"

text \<open>Two inertial samples whose timestamps decrease, and no position fix.\<close>

definition d_back :: dataset where
  "d_back = \<lparr>gt = \<lparr>gt_p = [(0, 0, 0)], gt_v = [(1, 0, 0)], gt_r = [(0, 0, 0)]\<rparr>,
     imu_f = \<lparr>sdata = [(0, 0, 0), (0, 0, 0)], st = [1, 0]\<rparr>,
     imu_w = \<lparr>sdata = [(0, 0, 0), (0, 0, 0)], st = [1, 0]\<rparr>,
     gnss = \<lparr>sdata = [], st = []\<rparr>,
     lidar = \<lparr>sdata = [], st = []\<rparr>\<rparr>"

text \<open>Three inertial samples; a GNSS fix stamped with the first and a LIDAR fix stamped
  with the last.\<close>

definition d_edge :: dataset where
  "d_edge = \<lparr>gt = \<lparr>gt_p = [(0, 0, 0)], gt_v = [(0, 0, 0)], gt_r = [(0, 0, 0)]\<rparr>,
     imu_f = \<lparr>sdata = [(0, 0, 9.81), (0, 0, 9.81), (0, 0, 9.81)], st = [0, 1, 2]\<rparr>,
     imu_w = \<lparr>sdata = [(0, 0, 0), (0, 0, 0), (0, 0, 0)], st = [0, 1, 2]\<rparr>,
     gnss = \<lparr>sdata = [(1, 0, 0)], st = [0]\<rparr>,
     lidar = \<lparr>sdata = [(1, 0, 0)], st = [2]\<rparr>\<rparr>"

section \<open>Sums and products\<close>

lemma sum3: "(\<Sum>k<3. f k) = f 0 + f 1 + f (2::nat)" for f :: "nat \<Rightarrow> real"
  by (simp add: eval_nat_numeral)

lemma sum6: "(\<Sum>k<6. f k) = f 0 + f 1 + f 2 + f 3 + f 4 + f (5::nat)" for f :: "nat \<Rightarrow> real"
  by (simp add: eval_nat_numeral)

lemma sum9:
  "(\<Sum>k<9. f k) = f 0 + f 1 + f 2 + f 3 + f 4 + f 5 + f 6 + f 7 + f (8::nat)"
  for f :: "nat \<Rightarrow> real"
  by (simp add: eval_nat_numeral)

lemma f_ja_km_spec: "f_ja_km R dt c = F_spec dt (arr33 (skew_symmetric R c))"
  by (auto simp: f_ja_km_def F_spec_def assign_def eye_def scale_def mneg_def fun_eq_iff)

lemma q_cov_km_spec: "q_cov_km dt = Q_spec dt var_imu_f var_imu_w"
  by (auto simp: q_cov_km_def Q_spec_def imul_def eye_def scale_def lscale_def fun_eq_iff)

lemma l_jac_spec: "l_jac = L_spec"
  by (auto simp: l_jac_def L_spec_def assign_def eye_def zeros_def fun_eq_iff)

lemma h_jac_spec: "h_jac = H_spec"
  by (auto simp: h_jac_def H_spec_def assign_def eye_def zeros_def fun_eq_iff)

lemma H_row_sum: "(\<Sum>l<9. H_spec i l * f l) = (if i < 3 then f i else 0)"
proof (cases "i < 3")
  case True
  then consider "i = 0" | "i = 1" | "i = 2" by arith
  then show ?thesis by cases (simp_all add: sum9 H_spec_def)
next
  case False
  then show ?thesis by (simp add: sum9 H_spec_def)
qed

lemma H_col_sum: "(\<Sum>l<9. f l * H_spec i l) = (if i < 3 then f i else 0)"
proof (cases "i < 3")
  case True
  then consider "i = 0" | "i = 1" | "i = 2" by arith
  then show ?thesis by cases (simp_all add: sum9 H_spec_def)
next
  case False
  then show ?thesis by (simp add: sum9 H_spec_def)
qed

lemma H_mid_sum: "(\<Sum>l<3. f l * H_spec l m) = (if m < 3 then f m else 0)"
proof (cases "m < 3")
  case True
  then consider "m = 0" | "m = 1" | "m = 2" by arith
  then show ?thesis by cases (simp_all add: sum3 H_spec_def)
next
  case False
  then show ?thesis by (simp add: sum3 H_spec_def)
qed

lemma S_spec_eq:
  "S_spec sv P =
     (\<lambda>i j. (if i < 3 \<and> j < 3 then P i j else 0) + (if i = j \<and> i < 3 then sv else 0))"
  by (auto simp: S_spec_def madd_def dot_def T_def H_row_sum H_col_sum fun_eq_iff)

lemma innovation_cov_spec: "innovation_cov sv P = S_spec sv P"
  by (auto simp: innovation_cov_def S_spec_def r_cov_def scale_def eye_def h_jac_spec madd_def
      fun_eq_iff)

lemma PHt_eq: "dot 9 P (T H_spec) = (\<lambda>i k. if k < 3 then P i k else 0)"
  by (auto simp: dot_def T_def H_col_sum fun_eq_iff)

lemma KH_eq: "dot 3 K H_spec = (\<lambda>i m. if m < 3 then K i m else 0)"
  by (auto simp: dot_def H_mid_sum fun_eq_iff)

lemma cov_hat_eq:
  "dot 9 (msub (eye 9) (dot 3 K H_spec)) P =
     (\<lambda>i j. (if i < 9 then P i j else 0) - (\<Sum>m<3. K i m * P m j))"
  unfolding KH_eq
  by (auto simp: dot_def msub_def eye_def sum9 sum3 fun_eq_iff algebra_simps)

section \<open>The inverse and the measurement update\<close>

lemma adj3_entries:
  "adj3 A 0 0 = A 1 1 * A 2 2 - A 1 2 * A 2 1"
  "adj3 A 0 (Suc 0) = A 2 1 * A 0 2 - A 2 2 * A 0 1"
  "adj3 A 0 2 = A 0 1 * A 1 2 - A 0 2 * A 1 1"
  "adj3 A (Suc 0) 0 = A 1 2 * A 2 0 - A 1 0 * A 2 2"
  "adj3 A (Suc 0) (Suc 0) = A 2 2 * A 0 0 - A 2 0 * A 0 2"
  "adj3 A (Suc 0) 2 = A 0 2 * A 1 0 - A 0 0 * A 1 2"
  "adj3 A 2 0 = A 1 0 * A 2 1 - A 1 1 * A 2 0"
  "adj3 A 2 (Suc 0) = A 2 0 * A 0 1 - A 2 1 * A 0 0"
  "adj3 A 2 2 = A 0 0 * A 1 1 - A 0 1 * A 1 0"
  by (simp_all add: adj3_def numeral_2_eq_2)

lemma lt3_cases: "i < (3::nat) \<Longrightarrow> i = 0 \<or> i = 1 \<or> i = 2"
  by arith

lemma adj3_right: "i < 3 \<Longrightarrow> j < 3 \<Longrightarrow> (\<Sum>k<3. A i k * adj3 A k j) = (if i = j then det3 A else 0)"
  by (drule lt3_cases, drule lt3_cases, elim disjE)
     (simp_all add: sum3 adj3_entries det3_def algebra_simps)

lemma adj3_left: "i < 3 \<Longrightarrow> j < 3 \<Longrightarrow> (\<Sum>k<3. adj3 A i k * A k j) = (if i = j then det3 A else 0)"
  by (drule lt3_cases, drule lt3_cases, elim disjE)
     (simp_all add: sum3 adj3_entries det3_def algebra_simps)

lemma linalg_inv_Inr:
  "linalg_inv A = Inr B \<longleftrightarrow>
     det3 A \<noteq> 0 \<and> B = (\<lambda>i j. if i < 3 \<and> j < 3 then adj3 A i j / det3 A else 0)"
  by (auto simp: linalg_inv_def)

text \<open>The model of \<open>inv\<close> returns a two-sided inverse.\<close>

lemma linalg_inv_right:
  assumes "linalg_inv A = Inr B" and "i < 3" and "j < 3"
  shows "dot 3 A B i j = eye 3 i j"
proof -
  have d: "det3 A \<noteq> 0" and B: "\<And>k. k < 3 \<Longrightarrow> B k j = adj3 A k j / det3 A"
    using assms by (auto simp: linalg_inv_Inr)
  have "dot 3 A B i j = (\<Sum>k<3. A i k * (adj3 A k j / det3 A))"
    unfolding dot_def by (rule sum.cong) (simp_all add: B)
  also have "\<dots> = (\<Sum>k<3. A i k * adj3 A k j) / det3 A"
    by (simp add: sum_divide_distrib)
  finally show ?thesis using d assms(2,3) by (simp add: adj3_right eye_def)
qed

lemma linalg_inv_left:
  assumes "linalg_inv A = Inr B" and "i < 3" and "j < 3"
  shows "dot 3 B A i j = eye 3 i j"
proof -
  have d: "det3 A \<noteq> 0" and B: "\<And>k. k < 3 \<Longrightarrow> B i k = adj3 A i k / det3 A"
    using assms by (auto simp: linalg_inv_Inr)
  have "dot 3 B A i j = (\<Sum>k<3. adj3 A i k / det3 A * A k j)"
    unfolding dot_def by (rule sum.cong) (simp_all add: B)
  also have "\<dots> = (\<Sum>k<3. adj3 A i k * A k j) / det3 A"
    by (simp add: sum_divide_distrib)
  finally show ?thesis using d assms(2,3) by (simp add: adj3_left eye_def)
qed

lemma measurement_update_eq:
  assumes "linalg_inv (S_spec sv P) = Inr Sinv"
  shows "measurement_update R sv P y p v q =
     (let K = dot 3 (dot 9 P (T H_spec)) Sinv;
          dx = dotv 3 K (arr3 (vsub y p))
      in Inr (vadd p (slice3 dx 0), vadd v (slice3 dx 3),
              quat_mult_left R (quat_euler R (slice3 dx 6)) q,
              dot 9 (msub (eye 9) (dot 3 K H_spec)) P))"
  using assms
  by (simp add: measurement_update_def k_gain_def innovation_cov_spec seq_def h_jac_spec Let_def)

section \<open>Positive definite 3x3 matrices\<close>

lemma pd3_minors:
  fixes a b c d e f :: real
  assumes pd: "\<And>x y z. x \<noteq> 0 \<or> y \<noteq> 0 \<or> z \<noteq> 0 \<Longrightarrow> 0 < qf3 a b c d e f x y z"
  shows "0 < a" and "0 < a * d - b * b"
    and "0 < a * d * f + 2 * b * c * e - a * e * e - d * c * c - f * b * b"
proof -
  have "0 < qf3 a b c d e f 1 0 0" by (rule pd) simp
  then show a: "0 < a" by (simp add: qf3_def)
  have "0 < qf3 a b c d e f b (- a) 0" by (rule pd) (use a in simp)
  also have "qf3 a b c d e f b (- a) 0 = a * (a * d - b * b)"
    by (simp add: qf3_def algebra_simps)
  finally show m: "0 < a * d - b * b" using a by (simp add: zero_less_mult_iff)
  let ?D = "a * d * f + 2 * b * c * e - a * e * e - d * c * c - f * b * b"
  have "0 < qf3 a b c d e f (b * e - c * d) (b * c - a * e) (a * d - b * b)"
    by (rule pd) (use m in simp)
  also have "qf3 a b c d e f (b * e - c * d) (b * c - a * e) (a * d - b * b) = ?D * (a * d - b * b)"
    by (simp add: qf3_def algebra_simps)
  finally show "0 < ?D" using m by (simp add: zero_less_mult_iff)
qed

lemma pd3_adj:
  fixes a b c d e f :: real
  assumes pd: "\<And>x y z. x \<noteq> 0 \<or> y \<noteq> 0 \<or> z \<noteq> 0 \<Longrightarrow> 0 < qf3 a b c d e f x y z"
    and nz: "x \<noteq> 0 \<or> y \<noteq> 0 \<or> z \<noteq> 0"
  shows "0 < qf3 (d * f - e * e) (c * e - b * f) (b * e - c * d) (a * f - c * c) (b * c - a * e)
               (a * d - b * b) x y z"
proof -
  let ?D = "a * d * f + 2 * b * c * e - a * e * e - d * c * c - f * b * b"
  let ?u = "(d * f - e * e) * x + (c * e - b * f) * y + (b * e - c * d) * z"
  let ?v = "(c * e - b * f) * x + (a * f - c * c) * y + (b * c - a * e) * z"
  let ?w = "(b * e - c * d) * x + (b * c - a * e) * y + (a * d - b * b) * z"
  have D: "0 < ?D" using pd3_minors(3)[of a b c d e f] pd by blast
  have 1: "a * ?u + b * ?v + c * ?w = ?D * x" by (simp add: algebra_simps)
  have 2: "b * ?u + d * ?v + e * ?w = ?D * y" by (simp add: algebra_simps)
  have 3: "c * ?u + e * ?v + f * ?w = ?D * z" by (simp add: algebra_simps)
  have "?u \<noteq> 0 \<or> ?v \<noteq> 0 \<or> ?w \<noteq> 0"
  proof (rule ccontr)
    assume "\<not> ?thesis"
    then have "?u = 0" "?v = 0" "?w = 0" by auto
    with 1 2 3 have "?D * x = 0" "?D * y = 0" "?D * z = 0" by simp_all
    with D nz show False by auto
  qed
  then have "0 < qf3 a b c d e f ?u ?v ?w" by (rule pd)
  also have "qf3 a b c d e f ?u ?v ?w =
      ?u * (a * ?u + b * ?v + c * ?w) + ?v * (b * ?u + d * ?v + e * ?w)
      + ?w * (c * ?u + e * ?v + f * ?w)"
    by (simp add: qf3_def algebra_simps)
  also have "\<dots> = ?D * (?u * x + ?v * y + ?w * z)"
    unfolding 1 2 3 by (simp add: algebra_simps)
  also have "?u * x + ?v * y + ?w * z =
      qf3 (d * f - e * e) (c * e - b * f) (b * e - c * d) (a * f - c * c) (b * c - a * e)
        (a * d - b * b) x y z"
    by (simp add: qf3_def algebra_simps)
  finally show ?thesis using D by (simp add: zero_less_mult_iff)
qed

lemma qf3_zero: "qf3 a b c d e f 0 0 0 = 0"
  by (simp add: qf3_def)

lemma qf3_divide:
  "qf3 (a / D) (b / D) (c / D) (d / D) (e / D) (f / D) x y z = qf3 a b c d e f x y z / D"
  by (simp add: qf3_def add_divide_distrib)

lemma quad_sum3:
  fixes M :: mat and x :: vec
  assumes "M 1 0 = M 0 1" "M 2 0 = M 0 2" "M 2 1 = M 1 2"
  shows "(\<Sum>m<3. (\<Sum>k<3. x k * M k m) * x m) =
     qf3 (M 0 0) (M 0 1) (M 0 2) (M 1 1) (M 1 2) (M 2 2) (x 0) (x 1) (x 2)"
  using assms by (simp add: sum3 qf3_def algebra_simps)

text \<open>The corrected covariance, entry by entry.\<close>

lemma measurement_update_cov:
  assumes "linalg_inv (S_spec sv P) = Inr Sinv"
    and "measurement_update R sv P y p v q = Inr (p', v', q', P')" and "i < 9"
  shows "P' i j = P i j - (\<Sum>m<3. (\<Sum>k<3. P i k * Sinv k m) * P m j)"
proof -
  have "P' = dot 9 (msub (eye 9) (dot 3 (dot 3 (dot 9 P (T H_spec)) Sinv) H_spec)) P"
    using assms(2) unfolding measurement_update_eq[OF assms(1)] by (simp add: Let_def)
  then have "P' = (\<lambda>i j. (if i < 9 then P i j else 0)
      - (\<Sum>m<3. dot 3 (\<lambda>i k. if k < 3 then P i k else 0) Sinv i m * P m j))"
    unfolding PHt_eq cov_hat_eq .
  then show ?thesis using assms(3)
    by (simp add: dot_def sum3)
qed

text \<open>The innovation covariance of a symmetric positive semi-definite covariance and a
  positive variance is positive definite.\<close>

lemma psd9_block:
  assumes "symmetric9 P" and "psd9 P"
  shows "0 \<le> qf3 (P 0 0) (P 0 1) (P 0 2) (P 1 1) (P 1 2) (P 2 2) x y z"
proof -
  have s: "P 1 0 = P 0 1" "P 2 0 = P 0 2" "P 2 1 = P 1 2"
    using assms(1) by (simp_all add: symmetric9_def)
  have "0 \<le> (\<Sum>i<9. \<Sum>j<9. arr3 (x, y, z) i * P i j * arr3 (x, y, z) j)"
    using assms(2) unfolding psd9_def by blast
  also have "\<dots> = qf3 (P 0 0) (P 0 1) (P 0 2) (P 1 1) (P 1 2) (P 2 2) x y z"
    using s by (simp add: sum9 qf3_def algebra_simps)
  finally show ?thesis .
qed

lemma S_spec_pd:
  assumes "symmetric9 P" and "psd9 P" and "0 < sv" and "x \<noteq> 0 \<or> y \<noteq> 0 \<or> z \<noteq> 0"
  shows "0 < qf3 (P 0 0 + sv) (P 0 1) (P 0 2) (P 1 1 + sv) (P 1 2) (P 2 2 + sv) x y z"
proof -
  have "0 < x * x + y * y + z * z"
  proof -
    have "x * x + y * y + z * z \<noteq> 0"
      using assms(4) by (simp add: add_nonneg_eq_0_iff)
    moreover have "0 \<le> x * x + y * y + z * z" by simp
    ultimately show ?thesis by linarith
  qed
  then have "0 < sv * (x * x + y * y + z * z)" using assms(3) by simp
  moreover have "qf3 (P 0 0 + sv) (P 0 1) (P 0 2) (P 1 1 + sv) (P 1 2) (P 2 2 + sv) x y z =
      qf3 (P 0 0) (P 0 1) (P 0 2) (P 1 1) (P 1 2) (P 2 2) x y z + sv * (x * x + y * y + z * z)"
    by (simp add: qf3_def algebra_simps)
  ultimately show ?thesis using psd9_block[OF assms(1,2), of x y z] by linarith
qed

section \<open>The loop body\<close>

lemma seq_Inr [simp]: "seq (Inr x) f = f x"
  by (simp add: seq_def)

lemma seq_Inl [simp]: "seq (Inl e) f = Inl e"
  by (simp add: seq_def)

lemma seq_eq_Inr: "seq m f = Inr y \<longleftrightarrow> (\<exists>x. m = Inr x \<and> f x = Inr y)"
  by (cases m) simp_all

lemma idx_eq_Inr: "idx xs i = Inr x \<longleftrightarrow> i < length xs \<and> x = xs ! i"
  by (auto simp: idx_def)

lemma upd_eq_Inr: "upd xs i v = Inr ys \<longleftrightarrow> i < length xs \<and> ys = xs[i := v]"
  by (auto simp: upd_def)

lemma idx_in: "i < length xs \<Longrightarrow> idx xs i = Inr (xs ! i)"
  by (simp add: idx_def)

lemma upd_in: "i < length xs \<Longrightarrow> upd xs i v = Inr (xs[i := v])"
  by (simp add: upd_def)

text \<open>The propagation of step \<open>k\<close> succeeds exactly when its indices are in range, and
  then writes row \<open>k\<close> from row \<open>k - 1\<close>.\<close>

lemma predict_eq:
  assumes "rows_ok d k s"
  shows "predict R d k s =
     (let dt = st (imu_f d) ! k - st (imu_f d) ! (k - 1);
          q = q_est s ! (k - 1);
          f = sdata (imu_f d) ! (k - 1);
          u = imu_update R dt (p_est s ! (k - 1)) (v_est s ! (k - 1)) q f
                (sdata (imu_w d) ! (k - 1))
      in Inr (s\<lparr>p_est := (p_est s)[k := fst u], v_est := (v_est s)[k := fst (snd u)],
                q_est := (q_est s)[k := snd (snd u)],
                p_cov := (p_cov s)[k := cov_update R dt (mv3 (to_mat R q) f)
                                         (p_cov s ! (k - 1))]\<rparr>))"
proof -
  from assms have r: "k < length (st (imu_f d))" "k - Suc 0 < length (st (imu_f d))"
    "k - Suc 0 < length (sdata (imu_f d))" "k - Suc 0 < length (sdata (imu_w d))"
    "k < length (p_est s)" "k - Suc 0 < length (p_est s)" "k < length (v_est s)"
    "k - Suc 0 < length (v_est s)" "k < length (q_est s)" "k - Suc 0 < length (q_est s)"
    "k < length (p_cov s)" "k - Suc 0 < length (p_cov s)"
    by (auto simp: rows_ok_def)
  show ?thesis
    by (simp add: predict_def idx_in upd_in r Let_def split: prod.split)
qed

lemma predict_rows_ok:
  assumes "predict R d k s = Inr s1" and "1 \<le> k"
  shows "rows_ok d k s"
  using assms
  by (auto simp: predict_def rows_ok_def seq_eq_Inr idx_eq_Inr upd_eq_Inr Let_def
      split: prod.splits)

lemma predict_cursors:
  assumes "predict R d k s = Inr s1" and "1 \<le> k"
  shows "gnss_i s1 = gnss_i s" and "lidar_i s1 = lidar_i s"
    and "length (p_est s1) = length (p_est s)" and "length (v_est s1) = length (v_est s)"
    and "length (q_est s1) = length (q_est s)" and "length (p_cov s1) = length (p_cov s)"
  using assms(1) unfolding predict_eq[OF predict_rows_ok[OF assms]]
  by (auto simp: Let_def)

lemma correct_eq:
  assumes "k < length (p_est s)" "k < length (v_est s)" "k < length (q_est s)"
    "k < length (p_cov s)"
  shows "correct R sv y k s =
     seq (measurement_update R sv (p_cov s ! k) y (p_est s ! k) (v_est s ! k) (q_est s ! k))
       (\<lambda>(p_hat, v_hat, q_hat, p_cov_hat).
          Inr (s\<lparr>p_est := (p_est s)[k := p_hat], v_est := (v_est s)[k := v_hat],
                 q_est := (q_est s)[k := q_hat], p_cov := (p_cov s)[k := p_cov_hat]\<rparr>))"
  using assms
  by (cases "measurement_update R sv (p_cov s ! k) y (p_est s ! k) (v_est s ! k) (q_est s ! k)")
     (auto simp: correct_def idx_in upd_in)

lemma correct_Inr:
  assumes "correct R sv y k s = Inr c"
  shows "\<exists>p_hat v_hat q_hat p_cov_hat.
      measurement_update R sv (p_cov s ! k) y (p_est s ! k) (v_est s ! k) (q_est s ! k)
        = Inr (p_hat, v_hat, q_hat, p_cov_hat) \<and>
      c = s\<lparr>p_est := (p_est s)[k := p_hat], v_est := (v_est s)[k := v_hat],
             q_est := (q_est s)[k := q_hat], p_cov := (p_cov s)[k := p_cov_hat]\<rparr> \<and>
      k < length (p_est s) \<and> k < length (v_est s) \<and> k < length (q_est s) \<and>
      k < length (p_cov s)"
  using assms
  by (auto simp: correct_def seq_eq_Inr idx_eq_Inr upd_eq_Inr split: prod.splits)

lemma correct_cursors:
  assumes "correct R sv y k s = Inr c"
  shows "gnss_i c = gnss_i s" and "lidar_i c = lidar_i s"
    and "length (p_est c) = length (p_est s)" and "length (v_est c) = length (v_est s)"
    and "length (q_est c) = length (q_est s)" and "length (p_cov c) = length (p_cov s)"
  using correct_Inr[OF assms] by auto

text \<open>The two gated corrections.\<close>

lemma gnss_step_Inr:
  assumes "gnss_step R d k s = Inr s'"
  shows "if gnss_match d k s
         then \<exists>c. correct R var_gnss (sdata (gnss d) ! gnss_i s) k s = Inr c \<and>
                  s' = c\<lparr>gnss_i := gnss_i s + 1\<rparr>
         else s' = s"
  using assms
  by (auto simp: gnss_step_def gnss_due_def gnss_match_def seq_eq_Inr idx_eq_Inr
      correct_cursors split: if_splits)

lemma lidar_step_Inr:
  assumes "lidar_step R d k s = Inr s'"
  shows "if lidar_match d k s
         then \<exists>c. correct R var_lidar (sdata (lidar d) ! lidar_i s) k s = Inr c \<and>
                  s' = c\<lparr>lidar_i := lidar_i s + 1\<rparr>
         else s' = s"
  using assms
  by (auto simp: lidar_step_def lidar_due_def lidar_match_def seq_eq_Inr idx_eq_Inr
      correct_cursors split: if_splits)

lemma gnss_match_cong: "gnss_i s1 = gnss_i s \<Longrightarrow> gnss_match d k s1 = gnss_match d k s"
  by (simp add: gnss_match_def)

lemma lidar_match_cong: "lidar_i s1 = lidar_i s \<Longrightarrow> lidar_match d k s1 = lidar_match d k s"
  by (simp add: lidar_match_def)

lemma step_Inr:
  assumes "step R d k s = Inr s'" and "1 \<le> k"
  shows "\<exists>s1 s2. predict R d k s = Inr s1 \<and>
     (if gnss_match d k s
      then \<exists>c. correct R var_gnss (sdata (gnss d) ! gnss_i s) k s1 = Inr c \<and>
               s2 = c\<lparr>gnss_i := gnss_i s + 1\<rparr>
      else s2 = s1) \<and>
     (if lidar_match d k s
      then \<exists>c. correct R var_lidar (sdata (lidar d) ! lidar_i s) k s2 = Inr c \<and>
               s' = c\<lparr>lidar_i := lidar_i s + 1\<rparr>
      else s' = s2)"
proof -
  from assms(1) obtain s1 s2 where p: "predict R d k s = Inr s1"
    and g: "gnss_step R d k s1 = Inr s2" and l: "lidar_step R d k s2 = Inr s'"
    by (auto simp: step_def seq_eq_Inr)
  have c1: "gnss_i s1 = gnss_i s" "lidar_i s1 = lidar_i s"
    using predict_cursors[OF p assms(2)] by simp_all
  have G: "if gnss_match d k s
      then \<exists>c. correct R var_gnss (sdata (gnss d) ! gnss_i s) k s1 = Inr c \<and>
               s2 = c\<lparr>gnss_i := gnss_i s + 1\<rparr>
      else s2 = s1"
    using gnss_step_Inr[OF g, unfolded gnss_match_cong[OF c1(1)] c1(1)] .
  have c2: "lidar_i s2 = lidar_i s"
    using G c1 by (auto simp: correct_cursors split: if_splits)
  have L: "if lidar_match d k s
      then \<exists>c. correct R var_lidar (sdata (lidar d) ! lidar_i s) k s2 = Inr c \<and>
               s' = c\<lparr>lidar_i := lidar_i s + 1\<rparr>
      else s' = s2"
    using lidar_step_Inr[OF l, unfolded lidar_match_cong[OF c2] c2] .
  from p G L show ?thesis by blast
qed

section \<open>Invariants of the loop\<close>

lemma loop_append: "loop body (xs @ ys) s = seq (loop body xs s) (loop body ys)"
  by (induction xs arbitrary: s) (auto simp: seq_def split: sum.splits)

lemma loop_invariant:
  assumes "loop body ks s = Inr s'" and "I s"
    and "\<And>k a b. k \<in> set ks \<Longrightarrow> I a \<Longrightarrow> body k a = Inr b \<Longrightarrow> I b"
  shows "I s'"
  using assms
proof (induction ks arbitrary: s)
  case Nil
  then show ?case by simp
next
  case (Cons k ks)
  from Cons.prems(1) obtain s1 where b: "body k s = Inr s1" and l: "loop body ks s1 = Inr s'"
    by (auto simp: seq_eq_Inr)
  have s1: "I s1" using Cons.prems(3)[of k s s1] Cons.prems(2) b by simp
  show ?case
  proof (rule Cons.IH[OF l s1])
    fix k' a b
    assume "k' \<in> set ks" "I a" "body k' a = Inr b"
    then show "I b" using Cons.prems(3)[of k' a b] by simp
  qed
qed

text \<open>The calibration leaves the timestamps and the other sensors alone.\<close>

lemma calibrate_simps [simp]:
  "gt (calibrate d) = gt d" "imu_f (calibrate d) = imu_f d" "imu_w (calibrate d) = imu_w d"
  "gnss (calibrate d) = gnss d" "st (lidar (calibrate d)) = st (lidar d)"
  "length (sdata (lidar (calibrate d))) = length (sdata (lidar d))"
  by (simp_all add: calibrate_def)

lemma init_Inr:
  assumes "init R d = Inr s0"
  shows "gnss_i s0 = 0" and "lidar_i s0 = 0"
    and "q_est s0 = (replicate (length (sdata (imu_f d))) (0, 0, 0, 0))[0 := quat_euler R (gt_r (gt d) ! 0)]"
    and "1 \<le> length (sdata (imu_f d))"
    and "length (q_est s0) = length (sdata (imu_f d))"
  using assms
  by (auto simp: init_def Let_def seq_eq_Inr idx_eq_Inr upd_eq_Inr Suc_le_eq)

subsection \<open>Unit norm\<close>

lemma unit_preservingD:
  assumes "unit_preserving R"
  shows "norm2 (quat_euler R e) = 1" and "norm2 (quat_axis_angle R a) = 1"
    and "norm2 (quat_mult_left R s q) = norm2 s * norm2 q"
    and "norm2 (quat_mult_right R s q) = norm2 s * norm2 q"
  using assms unfolding unit_preserving_def by blast+

lemma predict_unit:
  assumes R: "unit_preserving R" and k: "1 \<le> k" and u: "unit_rows k s"
    and p: "predict R d k s = Inr s1"
  shows "unit_rows (Suc k) s1"
proof -
  have ok: "rows_ok d k s" using predict_rows_ok[OF p k] .
  then have len: "k < length (q_est s)" by (simp add: rows_ok_def)
  define q' where "q' = quat_mult_right R
      (quat_axis_angle R (smul (st (imu_f d) ! k - st (imu_f d) ! (k - 1)) (sdata (imu_w d) ! (k - 1))))
      (q_est s ! (k - 1))"
  have q: "q_est s1 = (q_est s)[k := q']"
    using p unfolding predict_eq[OF ok] by (auto simp: Let_def imu_update_def q'_def)
  have "norm2 (q_est s ! (k - 1)) = 1" using u k by (simp add: unit_rows_def)
  then have "norm2 q' = 1" by (simp add: unit_preservingD[OF R] q'_def)
  then show ?thesis using u len unfolding unit_rows_def q
    by (auto simp: nth_list_update less_Suc_eq)
qed

lemma correct_unit:
  assumes R: "unit_preserving R" and u: "unit_rows (Suc k) s1"
    and c: "correct R sv y k s1 = Inr s2"
  shows "unit_rows (Suc k) s2"
proof -
  from correct_Inr[OF c] obtain p_hat v_hat q_hat p_cov_hat where
    mu: "measurement_update R sv (p_cov s1 ! k) y (p_est s1 ! k) (v_est s1 ! k) (q_est s1 ! k)
        = Inr (p_hat, v_hat, q_hat, p_cov_hat)"
    and q: "q_est s2 = (q_est s1)[k := q_hat]" and len: "k < length (q_est s1)"
    by auto
  from mu have "\<exists>e. q_hat = quat_mult_left R (quat_euler R e) (q_est s1 ! k)"
    by (auto simp: measurement_update_def seq_eq_Inr Let_def simp del: split_paired_Ex)
  then obtain e where "q_hat = quat_mult_left R (quat_euler R e) (q_est s1 ! k)" ..
  moreover have "norm2 (q_est s1 ! k) = 1" using u by (simp add: unit_rows_def)
  ultimately have "norm2 q_hat = 1" by (simp add: unit_preservingD[OF R])
  then show ?thesis using u len unfolding unit_rows_def q
    by (auto simp: nth_list_update)
qed

lemma init_unit:
  assumes R: "unit_preserving R" and i: "init R d = Inr s0"
  shows "unit_rows 1 s0"
  using init_Inr(3,4)[OF i] by (simp add: unit_rows_def unit_preservingD[OF R] Suc_le_eq)

lemma step_unit:
  assumes R: "unit_preserving R" and k: "1 \<le> k" and u: "unit_rows k s"
    and s: "step R d k s = Inr s'"
  shows "unit_rows (Suc k) s'"
proof -
  from step_Inr[OF s k] obtain s1 s2 where p: "predict R d k s = Inr s1"
    and G: "if gnss_match d k s
      then \<exists>c. correct R var_gnss (sdata (gnss d) ! gnss_i s) k s1 = Inr c \<and>
               s2 = c\<lparr>gnss_i := gnss_i s + 1\<rparr>
      else s2 = s1"
    and L: "if lidar_match d k s
      then \<exists>c. correct R var_lidar (sdata (lidar d) ! lidar_i s) k s2 = Inr c \<and>
               s' = c\<lparr>lidar_i := lidar_i s + 1\<rparr>
      else s' = s2"
    by blast
  have u1: "unit_rows (Suc k) s1" using predict_unit[OF R k u p] .
  have u2: "unit_rows (Suc k) s2"
  proof (cases "gnss_match d k s")
    case True
    with G obtain c where "correct R var_gnss (sdata (gnss d) ! gnss_i s) k s1 = Inr c"
      and "s2 = c\<lparr>gnss_i := gnss_i s + 1\<rparr>" by auto
    with correct_unit[OF R u1] show ?thesis by (simp add: unit_rows_def)
  next
    case False
    with G u1 show ?thesis by simp
  qed
  show ?thesis
  proof (cases "lidar_match d k s")
    case True
    with L obtain c where "correct R var_lidar (sdata (lidar d) ! lidar_i s) k s2 = Inr c"
      and "s' = c\<lparr>lidar_i := lidar_i s + 1\<rparr>" by auto
    with correct_unit[OF R u2] show ?thesis by (simp add: unit_rows_def)
  next
    case False
    with L u2 show ?thesis by simp
  qed
qed

lemma loop_unit:
  assumes R: "unit_preserving R" and u: "unit_rows 1 s"
    and l: "loop (step R d) [1..<n] s = Inr s'" and n: "1 \<le> n"
  shows "unit_rows n s'"
  using l n
proof (induction n arbitrary: s')
  case 0
  then show ?case by simp
next
  case (Suc n)
  show ?case
  proof (cases "n = 0")
    case True
    with Suc.prems u show ?thesis by simp
  next
    case False
    then have n1: "1 \<le> n" by simp
    then have "[1..<Suc n] = [1..<n] @ [n]" by simp
    with Suc.prems(1) obtain s1 where a: "loop (step R d) [1..<n] s = Inr s1"
      and b: "step R d n s1 = Inr s'"
      by (auto simp: loop_append seq_eq_Inr)
    from step_unit[OF R n1 Suc.IH[OF a n1] b] show ?thesis .
  qed
qed

lemma run_unit:
  assumes R: "unit_preserving R" and r: "run R d = Inr s'"
  shows "unit_rows (length (sdata (imu_f d))) s'"
proof -
  from r obtain s0 where i: "init R (calibrate d) = Inr s0"
    and l: "loop (step R (calibrate d)) [1..<length (sdata (imu_f d))] s0 = Inr s'"
    by (auto simp: run_def Let_def seq_eq_Inr)
  have "1 \<le> length (sdata (imu_f d))" using init_Inr(4)[OF i] unfolding calibrate_simps .
  from loop_unit[OF R init_unit[OF R i] l this] show ?thesis .
qed

subsection \<open>The cursors\<close>

lemma step_cursors:
  assumes "step R d k s = Inr s'" and "1 \<le> k"
  shows "gnss_i s' = (if gnss_match d k s then gnss_i s + 1 else gnss_i s)"
    and "lidar_i s' = (if lidar_match d k s then lidar_i s + 1 else lidar_i s)"
    and "k < length (st (imu_f d))"
proof -
  from step_Inr[OF assms] obtain s1 s2 where p: "predict R d k s = Inr s1"
    and G: "if gnss_match d k s
      then \<exists>c. correct R var_gnss (sdata (gnss d) ! gnss_i s) k s1 = Inr c \<and>
               s2 = c\<lparr>gnss_i := gnss_i s + 1\<rparr>
      else s2 = s1"
    and L: "if lidar_match d k s
      then \<exists>c. correct R var_lidar (sdata (lidar d) ! lidar_i s) k s2 = Inr c \<and>
               s' = c\<lparr>lidar_i := lidar_i s + 1\<rparr>
      else s' = s2"
    by blast
  note c1 = predict_cursors(1,2)[OF p assms(2)]
  have g2: "gnss_i s2 = (if gnss_match d k s then gnss_i s + 1 else gnss_i s)"
    and l2: "lidar_i s2 = lidar_i s"
    using G c1 by (auto simp: correct_cursors split: if_splits)
  show "gnss_i s' = (if gnss_match d k s then gnss_i s + 1 else gnss_i s)"
    using L g2 by (auto simp: correct_cursors split: if_splits)
  show "lidar_i s' = (if lidar_match d k s then lidar_i s + 1 else lidar_i s)"
    using L l2 by (auto simp: correct_cursors split: if_splits)
  show "k < length (st (imu_f d))"
    using predict_rows_ok[OF p assms(2)] by (simp add: rows_ok_def)
qed

section \<open>The reference rotation algebra and the data sets\<close>

lemma norm2_qmul: "norm2 (qmul a b) = norm2 a * norm2 b"
  by (cases a; cases b) (simp add: algebra_simps)

lemma sc1: "sin x * sin x + cos x * cos x = (1::real)"
  using sin_cos_squared_add[of x] by (simp add: power2_eq_square)

lemma norm2_euler_quat: "norm2 (euler_quat e) = 1"
proof -
  obtain r p y where e: "e = (r, p, y)" by (cases e)
  define cr sr cp sp cy sy where d: "cr = cos (r / 2)" "sr = sin (r / 2)" "cp = cos (p / 2)"
    "sp = sin (p / 2)" "cy = cos (y / 2)" "sy = sin (y / 2)"
  have 1: "sr * sr + cr * cr = 1" "sp * sp + cp * cp = 1" "sy * sy + cy * cy = 1"
    by (simp_all add: d sc1)
  have "norm2 (euler_quat e) =
      (sr * sr + cr * cr) * (sp * sp + cp * cp) * (sy * sy + cy * cy)"
    by (simp add: e Let_def d[symmetric] algebra_simps)
  then show ?thesis by (simp add: 1)
qed

lemma norm2_axis_angle_quat: "norm2 (axis_angle_quat a) = 1"
proof -
  obtain x y z where a: "a = (x, y, z)" by (cases a)
  define n where "n = sqrt (x * x + y * y + z * z)"
  show ?thesis
  proof (cases "n = 0")
    case True
    then show ?thesis by (simp add: a n_def[symmetric])
  next
    case False
    have nn: "n * n = x * x + y * y + z * z"
      unfolding n_def by (simp add: real_sqrt_mult_self)
    define s where "s = sin (n / 2)"
    define c where "c = cos (n / 2)"
    have "axis_angle_quat a = (c, x / n * s, y / n * s, z / n * s)"
      using False by (simp add: a Let_def n_def[symmetric] s_def c_def)
    then have "norm2 (axis_angle_quat a) = c * c + (x * x + y * y + z * z) * (s * s) / (n * n)"
      using False by (simp add: field_simps)
    also have "\<dots> = c * c + s * s" using False by (simp add: nn[symmetric])
    also have "\<dots> = 1" using sc1[of "n / 2"] by (simp add: s_def c_def)
    finally show ?thesis .
  qed
qed

lemma unit_preserving_hamilton: "unit_preserving hamilton"
  unfolding unit_preserving_def
  by (simp add: hamilton_def norm2_qmul norm2_euler_quat norm2_axis_angle_quat mult.commute
      del: split_paired_All)

lemma hamilton_simps [simp]:
  "quat_euler hamilton = euler_quat" "quat_axis_angle hamilton = axis_angle_quat"
  "to_mat hamilton = quat_mat" "quat_mult_left hamilton s q = qmul s q"
  "quat_mult_right hamilton s q = qmul q s" "skew_symmetric hamilton = skew3"
  by (simp_all add: hamilton_def)

lemma hamilton_zero_rotation: "quat_mult_right hamilton (quat_axis_angle hamilton (0, 0, 0)) q = q"
  by (cases q) simp

lemma rows_ok_two: "rows_ok d_two 1 s_two"
  by (simp add: rows_ok_def d_two_def s_two_def)

lemma rows_ok_back: "rows_ok d_back 1 s_two"
  by (simp add: rows_ok_def d_back_def s_two_def)

lemma symmetric9_eye: "symmetric9 (eye 9)"
  by (auto simp: symmetric9_def eye_def)

lemma psd9_eye: "psd9 (eye 9)"
  by (simp add: psd9_def sum9 eye_def)

lemma symmetric9_zeros: "symmetric9 zeros"
  by (simp add: symmetric9_def zeros_def)

lemma psd9_zeros: "psd9 zeros"
  by (simp add: psd9_def zeros_def)

section \<open>Runs and steps\<close>

lemma loop_steps:
  assumes "loop body ks s = Inr s'" and "k \<in> set ks"
  shows "\<exists>a b. body k a = Inr b"
  using assms
proof (induction ks arbitrary: s)
  case Nil
  then show ?case by simp
next
  case (Cons x xs)
  from Cons.prems(1) obtain s1 where b: "body x s = Inr s1" and l: "loop body xs s1 = Inr s'"
    by (auto simp: seq_eq_Inr)
  show ?case
  proof (cases "k = x")
    case True
    with b show ?thesis by blast
  next
    case False
    with Cons.prems(2) have "k \<in> set xs" by simp
    from Cons.IH[OF l this] show ?thesis .
  qed
qed

lemma run_Inr:
  assumes "run R d = Inr s'"
  shows "\<exists>s0. init R (calibrate d) = Inr s0 \<and>
     loop (step R (calibrate d)) [1..<length (sdata (imu_f d))] s0 = Inr s'"
  using assms by (auto simp: run_def Let_def seq_eq_Inr)

lemma gnss_cursor_bound:
  assumes r: "run R d = Inr s'" and inc: "sorted_wrt (<) (st (imu_f d))"
    and j: "st (gnss d) ! j = st (imu_f d) ! 0"
  shows "gnss_i s' \<le> j"
proof -
  from run_Inr[OF r] obtain s0 where i: "init R (calibrate d) = Inr s0"
    and l: "loop (step R (calibrate d)) [1..<length (sdata (imu_f d))] s0 = Inr s'"
    by blast
  show ?thesis
  proof (rule loop_invariant[OF l, where I = "\<lambda>a. gnss_i a \<le> j"])
    show "gnss_i s0 \<le> j" using init_Inr(1)[OF i] by simp
  next
    fix k a b
    assume k: "k \<in> set [1..<length (sdata (imu_f d))]" and a: "gnss_i a \<le> j"
      and b: "step R (calibrate d) k a = Inr b"
    from k have k1: "1 \<le> k" by simp
    note c = step_cursors[OF b k1]
    have "\<not> gnss_match (calibrate d) k a" if "gnss_i a = j"
    proof
      assume "gnss_match (calibrate d) k a"
      with that j have "st (imu_f d) ! 0 = st (imu_f d) ! k"
        by (simp add: gnss_match_def)
      moreover have "st (imu_f d) ! 0 < st (imu_f d) ! k"
        using inc c(3) k1 by (simp add: sorted_wrt_iff_nth_less)
      ultimately show False by simp
    qed
    with a c(1) show "gnss_i b \<le> j" by (cases "gnss_i a = j") auto
  qed
qed

lemma lidar_cursor_bound:
  assumes r: "run R d = Inr s'" and inc: "sorted_wrt (<) (st (imu_f d))"
    and j: "st (lidar d) ! j = st (imu_f d) ! (length (sdata (imu_f d)) - 1)"
  shows "lidar_i s' \<le> j"
proof -
  let ?n = "length (sdata (imu_f d))"
  from run_Inr[OF r] obtain s0 where i: "init R (calibrate d) = Inr s0"
    and l: "loop (step R (calibrate d)) [1..<?n] s0 = Inr s'"
    by blast
  show ?thesis
  proof (rule loop_invariant[OF l, where I = "\<lambda>a. lidar_i a \<le> j"])
    show "lidar_i s0 \<le> j" using init_Inr(2)[OF i] by simp
  next
    fix k a b
    assume k: "k \<in> set [1..<?n]" and a: "lidar_i a \<le> j"
      and b: "step R (calibrate d) k a = Inr b"
    from k have k1: "1 \<le> k" and kn: "k < ?n" by simp_all
    then have "?n - 1 \<in> set [1..<?n]" by (simp, arith)
    from loop_steps[OF l this] obtain a' b' where "step R (calibrate d) (?n - 1) a' = Inr b'"
      by blast
    from step_cursors(3)[OF this] k1 kn have last: "?n - 1 < length (st (imu_f d))" by simp
    note c = step_cursors[OF b k1]
    have "\<not> lidar_match (calibrate d) k a" if "lidar_i a = j"
    proof
      assume "lidar_match (calibrate d) k a"
      with that j have "st (imu_f d) ! (?n - 1) = st (imu_f d) ! (k - 1)"
        by (simp add: lidar_match_def)
      moreover have "st (imu_f d) ! (k - 1) < st (imu_f d) ! (?n - 1)"
        using inc last k1 kn by (simp add: sorted_wrt_iff_nth_less)
      ultimately show False by simp
    qed
    with a c(2) show "lidar_i b \<le> j" by (cases "lidar_i a = j") auto
  qed
qed

lemma run_back:
  "\<exists>s'. run hamilton d_back = Inr s' \<and> p_est s' ! 1 = (- 1, 0, - 4.905) \<and>
     length (q_est s') = 2"
  by (simp add: run_def Let_def calibrate_def d_back_def init_def idx_def upd_def step_def
      predict_def gnss_step_def gnss_due_def lidar_step_def lidar_due_def imu_update_def g_def)

lemma run_edge:
  "\<exists>s'. run hamilton d_edge = Inr s'"
  by (simp add: run_def Let_def calibrate_def d_edge_def init_def idx_def upd_def step_def
      predict_def gnss_step_def gnss_due_def lidar_step_def lidar_due_def imu_update_def g_def)

text \<open>On a covariance whose position block is zero the correction returns a covariance
  whose position block is zero.\<close>

lemma S_spec_zero_block:
  assumes "\<forall>i<3. \<forall>j<3. P i j = 0"
  shows "det3 (S_spec sv P) = sv * sv * sv"
  using assms by (simp add: det3_def S_spec_eq)

lemma measurement_update_zero_block:
  assumes z: "\<forall>i<3. \<forall>j<3. P i j = 0" and sv: "sv \<noteq> 0"
  shows "\<exists>p' v' q' P'. measurement_update R sv P y p v q = Inr (p', v', q', P') \<and>
     (\<forall>i<3. \<forall>j<3. P' i j = 0)"
proof -
  define Sinv where
    "Sinv = (\<lambda>i j. if i < 3 \<and> j < 3 then adj3 (S_spec sv P) i j / det3 (S_spec sv P) else 0)"
  have inv: "linalg_inv (S_spec sv P) = Inr Sinv"
    using sv by (simp add: linalg_inv_Inr S_spec_zero_block[OF z] Sinv_def)
  obtain p' v' q' P' where mu: "measurement_update R sv P y p v q = Inr (p', v', q', P')"
    by (simp add: measurement_update_eq[OF inv] Let_def)
  have "P' i j = 0" if "i < 3" "j < 3" for i j
    using measurement_update_cov[OF inv mu, of i j] that z by (simp add: sum3)
  with mu show ?thesis by blast
qed

lemma cov_update_zeros_block:
  assumes "i < 3" and "j < 3"
  shows "cov_update R dt c zeros i j = 0"
  using assms
  by (simp add: cov_update_def madd_def dot_def T_def zeros_def l_jac_spec L_spec_def sum6)

lemma correct_zero_block:
  assumes len: "k < length (p_est s)" "k < length (v_est s)" "k < length (q_est s)"
    "k < length (p_cov s)"
    and z: "\<forall>i<3. \<forall>j<3. (p_cov s ! k) i j = 0" and sv: "sv \<noteq> 0"
  shows "\<exists>c. correct R sv y k s = Inr c \<and> (\<forall>i<3. \<forall>j<3. (p_cov c ! k) i j = 0)"
proof -
  from measurement_update_zero_block[OF z sv, of R y "p_est s ! k" "v_est s ! k" "q_est s ! k"]
  obtain p' v' q' P' where
    mu: "measurement_update R sv (p_cov s ! k) y (p_est s ! k) (v_est s ! k) (q_est s ! k)
         = Inr (p', v', q', P')"
    and z': "\<forall>i<3. \<forall>j<3. P' i j = 0"
    by blast
  show ?thesis
    unfolding correct_eq[OF len] using z' len by (simp add: mu)
qed

lemma gnss_step_fire:
  assumes "gnss_match d k s" and "gnss_i s < length (st (gnss d))"
    and "k < length (st (imu_f d))"
    and "correct R var_gnss (sdata (gnss d) ! gnss_i s) k s = Inr c"
  shows "gnss_step R d k s = Inr (c\<lparr>gnss_i := gnss_i s + 1\<rparr>)"
  using assms correct_cursors(1)[OF assms(4)]
  by (simp add: gnss_step_def gnss_due_def gnss_match_def idx_def)

lemma lidar_step_fire:
  assumes "lidar_match d k s" and "lidar_i s < length (sdata (lidar d))"
    and "k - 1 < length (st (imu_f d))"
    and "correct R var_lidar (sdata (lidar d) ! lidar_i s) k s = Inr c"
  shows "lidar_step R d k s = Inr (c\<lparr>lidar_i := lidar_i s + 1\<rparr>)"
  using assms correct_cursors(2)[OF assms(4)]
  by (simp add: lidar_step_def lidar_due_def lidar_match_def idx_def)

lemma step_two: "\<exists>s'. step hamilton d_two 1 s_two = Inr s'"
proof -
  from predict_eq[OF rows_ok_two, of hamilton] obtain s1 where
    p: "predict hamilton d_two 1 s_two = Inr s1"
    and s1: "length (p_est s1) = 2" "length (v_est s1) = 2" "length (q_est s1) = 2"
      "length (p_cov s1) = 2" "gnss_i s1 = 0" "lidar_i s1 = 0"
    and P1: "\<exists>dt c. p_cov s1 ! 1 = cov_update hamilton dt c zeros"
    by (auto simp: Let_def s_two_def simp del: split_paired_Ex)
  from P1 have z1: "\<forall>i<3. \<forall>j<3. (p_cov s1 ! 1) i j = 0"
    by (auto simp: cov_update_zeros_block)
  have "\<exists>c. correct hamilton 10 (5, 0, 0) 1 s1 = Inr c \<and>
      (\<forall>i<3. \<forall>j<3. (p_cov c ! 1) i j = 0)"
    by (rule correct_zero_block) (simp_all add: s1 z1 del: One_nat_def)
  then obtain c1 where c1: "correct hamilton var_gnss (5, 0, 0) 1 s1 = Inr c1"
    and z2: "\<forall>i<3. \<forall>j<3. (p_cov c1 ! 1) i j = 0"
    unfolding var_gnss_def by blast
  have g0: "gnss_step hamilton d_two 1 s1 = Inr (c1\<lparr>gnss_i := gnss_i s1 + 1\<rparr>)"
    by (rule gnss_step_fire) (simp_all add: gnss_match_def d_two_def s1 c1 del: One_nat_def)
  let ?s2 = "c1\<lparr>gnss_i := 1\<rparr>"
  have g: "gnss_step hamilton d_two 1 s1 = Inr ?s2"
    using g0 by (simp add: s1 del: One_nat_def)
  note l1 = correct_cursors[OF c1]
  have "\<exists>c. correct hamilton 1 (0, 0, 0) 1 ?s2 = Inr c \<and> (\<forall>i<3. \<forall>j<3. (p_cov c ! 1) i j = 0)"
    by (rule correct_zero_block) (simp_all add: l1 s1 z2 del: One_nat_def)
  then obtain c2 where c2: "correct hamilton var_lidar (0, 0, 0) 1 ?s2 = Inr c2"
    unfolding var_lidar_def by blast
  have l: "lidar_step hamilton d_two 1 ?s2 = Inr (c2\<lparr>lidar_i := lidar_i ?s2 + 1\<rparr>)"
    by (rule lidar_step_fire) (simp_all add: lidar_match_def d_two_def l1 s1 c2 del: One_nat_def)
  show ?thesis
    by (simp add: step_def p g l del: One_nat_def)
qed

section \<open>Two worked corrections\<close>

lemma P_rot_block:
  "P_rot 0 0 = 1" "P_rot 0 (Suc 0) = 0" "P_rot 0 2 = 0" "P_rot (Suc 0) 0 = 0"
  "P_rot (Suc 0) (Suc 0) = 0" "P_rot (Suc 0) 2 = 0" "P_rot 2 0 = 0" "P_rot 2 (Suc 0) = 0"
  "P_rot 2 2 = 0"
  by (simp_all add: P_rot_def u_rot_def)

lemma P_rot_column:
  "P_rot 6 0 = pi" "P_rot 6 (Suc 0) = 0" "P_rot 6 2 = 0"
  "P_rot 7 0 = pi" "P_rot 7 (Suc 0) = 0" "P_rot 7 2 = 0"
  "P_rot 8 0 = 0" "P_rot 8 (Suc 0) = 0" "P_rot 8 2 = 0"
  by (simp_all add: P_rot_def u_rot_def)

lemma symmetric9_P_rot: "symmetric9 P_rot"
  by (simp add: symmetric9_def P_rot_def mult.commute)

lemma psd9_P_rot: "psd9 P_rot"
proof -
  have "(\<Sum>i<9. \<Sum>j<9. x i * P_rot i j * x j) = (\<Sum>i<9. x i * u_rot i) * (\<Sum>i<9. x i * u_rot i)"
    for x :: vec
    by (simp add: P_rot_def sum_product mult_ac)
  then show ?thesis by (simp add: psd9_def)
qed

lemma P_rot_innovation:
  "S_spec 1 P_rot 0 0 = 2" "S_spec 1 P_rot 0 (Suc 0) = 0" "S_spec 1 P_rot 0 2 = 0"
  "S_spec 1 P_rot (Suc 0) 0 = 0" "S_spec 1 P_rot (Suc 0) (Suc 0) = 1"
  "S_spec 1 P_rot (Suc 0) 2 = 0" "S_spec 1 P_rot 2 0 = 0" "S_spec 1 P_rot 2 (Suc 0) = 0"
  "S_spec 1 P_rot 2 2 = 1"
  by (simp_all add: S_spec_eq P_rot_block)

lemma P_rot_det: "det3 (S_spec 1 P_rot) = 2"
  by (simp add: det3_def P_rot_innovation)

lemma P_rot_inverse:
  "linalg_inv (S_spec 1 P_rot) =
     Inr (\<lambda>i j. if i < 3 \<and> j < 3 then adj3 (S_spec 1 P_rot) i j / det3 (S_spec 1 P_rot) else 0)"
  by (simp add: linalg_inv_def P_rot_det)

lemma P_rot_error_state:
  "slice3 (dotv 3 (dot 3 (dot 9 P_rot (T H_spec))
       (\<lambda>i j. if i < 3 \<and> j < 3 then adj3 (S_spec 1 P_rot) i j / det3 (S_spec 1 P_rot) else 0))
     (arr3 (vsub (2, 0, 0) (0, 0, 0)))) 6 = (pi, pi, 0)"
  unfolding PHt_eq
  by (simp add: slice3_def dotv_def dot_def sum3 P_rot_column P_rot_det adj3_entries
      P_rot_innovation)

text \<open>In the reference algebra the two constructors differ on every vector \<open>(a, b, 0)\<close>
  with \<open>sin (a/2) sin (b/2) \<noteq> 0\<close>: composed on the left of the identity, the last
  component is 0 for the rotation vector and \<open>- sin (a/2) sin (b/2)\<close> for the Euler
  angles.\<close>

lemma axis_angle_no_yaw:
  "snd (snd (snd (qmul (axis_angle_quat (a, b, 0)) (1, 0, 0, 0)))) = 0"
  by (cases "sqrt (a * a + b * b + 0 * 0) = 0") (simp_all add: Let_def)

lemma euler_yaw:
  "snd (snd (snd (qmul (euler_quat (a, b, 0)) (1, 0, 0, 0)))) = - (sin (a / 2) * sin (b / 2))"
  by (simp add: Let_def)

lemma cov_update_eye_block:
  assumes "i < 3" and "j < 3"
  shows "cov_update R dt c (eye 9) i j = (if i = j then 1 + dt * dt else 0)"
  using lt3_cases[OF assms(1)] lt3_cases[OF assms(2)]
  by (elim disjE)
     (simp_all add: cov_update_def f_ja_km_spec q_cov_km_spec l_jac_spec madd_def dot_def T_def
        sum9 sum6 F_spec_def L_spec_def eye_def)

text \<open>The correction on a covariance whose position block is \<open>a I\<^sub>3\<close>: the position moves
  by \<open>a / (a + \<sigma>\<^sup>2)\<close> of the innovation and the block becomes \<open>a \<sigma>\<^sup>2 / (a + \<sigma>\<^sup>2) I\<^sub>3\<close>.\<close>

lemma measurement_update_scalar_block:
  assumes blk: "\<forall>i<3. \<forall>j<3. P i j = (if i = j then a else 0)" and nz: "a + sv \<noteq> 0"
  shows "\<exists>v' q' P'. measurement_update R sv P y p v q =
       Inr (vadd p (smul (a / (a + sv)) (vsub y p)), v', q', P') \<and>
     (\<forall>i<3. \<forall>j<3. P' i j = (if i = j then a * sv / (a + sv) else 0))"
proof -
  let ?S = "S_spec sv P"
  have P: "P i j = (if i = j then a else 0)" if "i < 3" "j < 3" for i j
    using blk that by blast
  have S: "?S 0 0 = a + sv" "?S 0 (Suc 0) = 0" "?S 0 2 = 0" "?S (Suc 0) 0 = 0"
    "?S (Suc 0) (Suc 0) = a + sv" "?S (Suc 0) 2 = 0" "?S 2 0 = 0" "?S 2 (Suc 0) = 0"
    "?S 2 2 = a + sv"
    by (simp_all add: S_spec_eq P)
  have det: "det3 ?S = (a + sv) * (a + sv) * (a + sv)" by (simp add: det3_def S)
  define Sinv where "Sinv = (\<lambda>i j. if i < 3 \<and> j < 3 then adj3 ?S i j / det3 ?S else 0)"
  have inv: "linalg_inv ?S = Inr Sinv"
    using nz by (simp add: linalg_inv_Inr det Sinv_def)
  have Si: "Sinv i j = (if i = j then 1 / (a + sv) else 0)" if "i < 3" "j < 3" for i j
    using lt3_cases[OF that(1)] lt3_cases[OF that(2)] nz
    by (elim disjE; simp add: Sinv_def det adj3_entries S)
  define K where "K = dot 3 (dot 9 P (T H_spec)) Sinv"
  have Kij: "K i j = (if i = j then a / (a + sv) else 0)" if "i < 3" "j < 3" for i j
    unfolding K_def PHt_eq using that by (simp add: dot_def sum3 P Si)
  define dx where "dx = dotv 3 K (arr3 (vsub y p))"
  define P' where "P' = dot 9 (msub (eye 9) (dot 3 K H_spec)) P"
  have mu: "measurement_update R sv P y p v q =
      Inr (vadd p (slice3 dx 0), vadd v (slice3 dx 3),
           quat_mult_left R (quat_euler R (slice3 dx 6)) q, P')"
    by (simp add: measurement_update_eq[OF inv] Let_def K_def dx_def P'_def)
  have ph: "slice3 dx 0 = smul (a / (a + sv)) (vsub y p)"
    by (cases y; cases p) (simp add: slice3_def dx_def dotv_def sum3 Kij)
  have Pij: "P' i j = (if i = j then a * sv / (a + sv) else 0)" if "i < 3" "j < 3" for i j
  proof -
    have "P' i j = (if i = j then a - a * a / (a + sv) else 0)"
      using measurement_update_cov[OF inv mu, of i j] that
      by (simp add: sum3 P Si)
    moreover have "a - a * a / (a + sv) = a * sv / (a + sv)"
      using nz by (simp add: field_simps)
    ultimately show ?thesis by simp
  qed
  from mu[unfolded ph] Pij show ?thesis by blast
qed

lemma rows_ok_pos: "rows_ok d_two 1 s_pos"
  by (simp add: rows_ok_def d_two_def s_pos_def)

text \<open>The step on \<open>d_two\<close> from \<open>s_pos\<close>, stage by stage: the propagation gives the position
  \<open>(4, 0, 0)\<close> with position covariance \<open>5 I\<^sub>3\<close>, the GNSS fix \<open>(5, 0, 0)\<close> moves it to
  \<open>(13/3, 0, 0)\<close> with \<open>10/3 I\<^sub>3\<close>, the LIDAR fix \<open>(0, 0, 0)\<close> to \<open>(1, 0, 0)\<close> with
  \<open>10/13 I\<^sub>3\<close>.\<close>

lemma step_pos:
  "\<exists>s1 v2 q2 P2 v3 q3 P3.
     predict hamilton d_two 1 s_pos = Inr s1 \<and>
     p_est s1 ! 1 = (4, 0, 0) \<and> (\<forall>i<3. \<forall>j<3. (p_cov s1 ! 1) i j = (if i = j then 5 else 0)) \<and>
     measurement_update hamilton var_gnss (p_cov s1 ! 1) (5, 0, 0) (p_est s1 ! 1) (v_est s1 ! 1)
       (q_est s1 ! 1) = Inr ((13 / 3, 0, 0), v2, q2, P2) \<and>
     (\<forall>i<3. \<forall>j<3. P2 i j = (if i = j then 10 / 3 else 0)) \<and>
     measurement_update hamilton var_lidar P2 (0, 0, 0) (13 / 3, 0, 0) v2 q2
       = Inr ((1, 0, 0), v3, q3, P3) \<and>
     (\<forall>i<3. \<forall>j<3. P3 i j = (if i = j then 10 / 13 else 0)) \<and>
     step hamilton d_two 1 s_pos =
       Inr (s1\<lparr>p_est := (p_est s1)[1 := (1, 0, 0)], v_est := (v_est s1)[1 := v3],
               q_est := (q_est s1)[1 := q3], p_cov := (p_cov s1)[1 := P3],
               gnss_i := 1, lidar_i := 1\<rparr>)"
proof -
  from predict_eq[OF rows_ok_pos, of hamilton] obtain s1 where
    p: "predict hamilton d_two 1 s_pos = Inr s1"
    and len: "length (p_est s1) = 2" "length (v_est s1) = 2" "length (q_est s1) = 2"
      "length (p_cov s1) = 2"
    and cur: "gnss_i s1 = 0" "lidar_i s1 = 0"
    and p1: "p_est s1 ! 1 = (4, 0, 0)"
    and P1: "\<exists>c. p_cov s1 ! 1 = cov_update hamilton 2 c (eye 9)"
    by (auto simp: Let_def s_pos_def d_two_def imu_update_def g_def simp del: split_paired_Ex)
  from P1 have blk1: "\<forall>i<3. \<forall>j<3. (p_cov s1 ! 1) i j = (if i = j then 5 else 0)"
    by (auto simp: cov_update_eye_block)
  have k: "(1::nat) < 2" by simp
  from measurement_update_scalar_block[OF blk1, of 10 hamilton "(5, 0, 0)" "p_est s1 ! 1"
      "v_est s1 ! 1" "q_est s1 ! 1"]
  obtain v2 q2 P2 where
    mu1: "measurement_update hamilton var_gnss (p_cov s1 ! 1) (5, 0, 0) (p_est s1 ! 1)
        (v_est s1 ! 1) (q_est s1 ! 1) = Inr ((13 / 3, 0, 0), v2, q2, P2)"
    and blk2: "\<forall>i<3. \<forall>j<3. P2 i j = (if i = j then 10 / 3 else 0)"
    unfolding var_gnss_def p1 by (auto simp del: split_paired_Ex)
  define c1 where "c1 = s1\<lparr>p_est := (p_est s1)[1 := (13 / 3, 0, 0)],
      v_est := (v_est s1)[1 := v2], q_est := (q_est s1)[1 := q2],
      p_cov := (p_cov s1)[1 := P2]\<rparr>"
  have c1: "correct hamilton var_gnss (5, 0, 0) 1 s1 = Inr c1"
    unfolding correct_eq[of 1 s1, unfolded len, OF k k k k] mu1 c1_def by simp
  have g0: "gnss_step hamilton d_two 1 s1 = Inr (c1\<lparr>gnss_i := gnss_i s1 + 1\<rparr>)"
    by (rule gnss_step_fire) (simp_all add: gnss_match_def d_two_def cur c1 del: One_nat_def)
  define s2 where "s2 = c1\<lparr>gnss_i := 1\<rparr>"
  have g: "gnss_step hamilton d_two 1 s1 = Inr s2"
    using g0 by (simp add: cur s2_def del: One_nat_def)
  have len2: "length (p_est s2) = 2" "length (v_est s2) = 2" "length (q_est s2) = 2"
    "length (p_cov s2) = 2"
    by (simp_all add: s2_def c1_def len)
  have row2: "p_est s2 ! 1 = (13 / 3, 0, 0)" "v_est s2 ! 1 = v2" "q_est s2 ! 1 = q2"
    "p_cov s2 ! 1 = P2" "lidar_i s2 = 0"
    by (simp_all add: s2_def c1_def len cur del: One_nat_def)
  from measurement_update_scalar_block[OF blk2, of 1 hamilton "(0, 0, 0)" "(13 / 3, 0, 0)" v2 q2]
  obtain v3 q3 P3 where
    mu2: "measurement_update hamilton var_lidar P2 (0, 0, 0) (13 / 3, 0, 0) v2 q2
        = Inr ((1, 0, 0), v3, q3, P3)"
    and blk3: "\<forall>i<3. \<forall>j<3. P3 i j = (if i = j then 10 / 13 else 0)"
    unfolding var_lidar_def by (auto simp del: split_paired_Ex)
  define c2 where "c2 = s2\<lparr>p_est := (p_est s2)[1 := (1, 0, 0)],
      v_est := (v_est s2)[1 := v3], q_est := (q_est s2)[1 := q3],
      p_cov := (p_cov s2)[1 := P3]\<rparr>"
  have c2: "correct hamilton var_lidar (0, 0, 0) 1 s2 = Inr c2"
    unfolding correct_eq[of 1 s2, unfolded len2, OF k k k k] row2 mu2 c2_def by simp
  have l0: "lidar_step hamilton d_two 1 s2 = Inr (c2\<lparr>lidar_i := lidar_i s2 + 1\<rparr>)"
    by (rule lidar_step_fire) (simp_all add: lidar_match_def d_two_def row2 c2 del: One_nat_def)
  have l: "lidar_step hamilton d_two 1 s2 = Inr (c2\<lparr>lidar_i := 1\<rparr>)"
    using l0 by (simp add: row2 del: One_nat_def)
  have st: "step hamilton d_two 1 s_pos = Inr (c2\<lparr>lidar_i := 1\<rparr>)"
    by (simp add: step_def p g l del: One_nat_def)
  have "c2\<lparr>lidar_i := 1\<rparr> =
      s1\<lparr>p_est := (p_est s1)[1 := (1, 0, 0)], v_est := (v_est s1)[1 := v3],
         q_est := (q_est s1)[1 := q3], p_cov := (p_cov s1)[1 := P3],
         gnss_i := 1, lidar_i := 1\<rparr>"
    by (simp add: c2_def s2_def c1_def del: One_nat_def)
  with st have s': "step hamilton d_two 1 s_pos =
       Inr (s1\<lparr>p_est := (p_est s1)[1 := (1, 0, 0)], v_est := (v_est s1)[1 := v3],
               q_est := (q_est s1)[1 := q3], p_cov := (p_cov s1)[1 := P3],
               gnss_i := 1, lidar_i := 1\<rparr>)"
    by simp
  from p p1 blk1 mu1 blk2 mu2 blk3 s' show ?thesis by blast
qed

section \<open>The claims\<close>

subsection \<open>C1: nominal propagation\<close>

text \<open>
  Claim C1. When the rows that step \<open>k\<close> reads and writes are in range, the propagation
  of lines 172-193 succeeds. With \<open>\<Delta>t = t[k] - t[k-1]\<close>, the previous row \<open>(p, v, q)\<close> and the
  samples \<open>f\<close>, \<open>\<omega>\<close> of index \<open>k - 1\<close>, it stores at row \<open>k\<close> the position
  \<open>p + \<Delta>t v + (\<Delta>t\<^sup>2 / 2) (C(q) f + g)\<close> and the velocity \<open>v + \<Delta>t (C(q) f + g)\<close>, for
  \<open>g = (0, 0, -9.81)\<close> and \<open>C(q)\<close> the matrix the rotation algebra gives for \<open>q\<close>, and the
  orientation that \<open>quat_mult_right\<close> returns for the quaternion of the axis-angle vector
  \<open>\<omega> \<Delta>t\<close> as receiver and \<open>q\<close> as argument.
\<close>

theorem nominal_propagation:
  assumes "rows_ok d k s"
  shows "\<exists>s'. predict R d k s = Inr s' \<and>
     (let dt = st (imu_f d) ! k - st (imu_f d) ! (k - 1);
          p = p_est s ! (k - 1); v = v_est s ! (k - 1); q = q_est s ! (k - 1);
          f = sdata (imu_f d) ! (k - 1); w = sdata (imu_w d) ! (k - 1);
          a = vadd (mv3 (to_mat R q) f) (0, 0, - 9.81)
      in p_est s' ! k = vadd (vadd p (smul dt v)) (smul (dt ^ 2 / 2) a) \<and>
         v_est s' ! k = vadd v (smul dt a) \<and>
         q_est s' ! k = quat_mult_right R (quat_axis_angle R (smul dt w)) q)"
proof -
  from assms have "k < length (p_est s)" "k < length (v_est s)" "k < length (q_est s)"
    by (simp_all add: rows_ok_def)
  then show ?thesis
    unfolding predict_eq[OF assms] by (simp add: Let_def imu_update_def g_def)
qed

theorem nominal_propagation_witness:
  "rows_ok d_two 1 s_two \<and>
   (\<exists>s'. predict hamilton d_two 1 s_two = Inr s' \<and> p_est s' ! 1 = (4, 0, 0) \<and>
      v_est s' ! 1 = (3, 0, 0) \<and> q_est s' ! 1 = (1, 0, 0, 0))"
  using nominal_propagation[OF rows_ok_two, of hamilton] rows_ok_two
  by (simp add: d_two_def s_two_def Let_def)

subsection \<open>C2: covariance propagation\<close>

text \<open>
  Claim C2. The covariance the propagation stores at row \<open>k\<close> is \<open>F P F\<^sup>T + L Q L\<^sup>T\<close> with
  full 9x9 and 6x6 products, for \<open>P\<close> the covariance of row \<open>k - 1\<close> and \<open>F\<close>, \<open>Q\<close>, \<open>L\<close> the
  matrices \<open>F_spec\<close>, \<open>Q_spec\<close>, \<open>L_spec\<close> of the specification: the arrays that lines
  122-123 and 185-192 build by slice assignment and in-place products are these matrices.
\<close>

theorem covariance_propagation:
  assumes "rows_ok d k s"
  shows "\<exists>s'. predict R d k s = Inr s' \<and>
     (let dt = st (imu_f d) ! k - st (imu_f d) ! (k - 1);
          q = q_est s ! (k - 1); f = sdata (imu_f d) ! (k - 1); P = p_cov s ! (k - 1);
          F = F_spec dt (arr33 (skew_symmetric R (mv3 (to_mat R q) f)));
          Q = Q_spec dt var_imu_f var_imu_w
      in p_cov s' ! k = madd (dot 9 (dot 9 F P) (T F)) (dot 6 (dot 6 L_spec Q) (T L_spec)))"
proof -
  from assms have "k < length (p_cov s)"
    by (simp add: rows_ok_def)
  then show ?thesis
    unfolding predict_eq[OF assms]
    by (simp add: Let_def cov_update_def f_ja_km_spec q_cov_km_spec l_jac_spec)
qed

theorem covariance_propagation_witness:
  "rows_ok d_two 1 s_two \<and>
   (\<exists>s'. predict hamilton d_two 1 s_two = Inr s' \<and> (p_cov s' ! 1) 3 3 = 1 / 25 \<and>
      (p_cov s' ! 1) 0 0 = 0 \<and> (p_cov s' ! 1) 3 4 = 0)"
proof -
  from covariance_propagation[OF rows_ok_two, of hamilton] obtain s' where
    p: "predict hamilton d_two 1 s_two = Inr s'"
    and c: "p_cov s' ! 1 = madd (dot 9 (dot 9 (F_spec 2 (arr33 (skew3 (1, 0, 981 / 100)))) zeros)
         (T (F_spec 2 (arr33 (skew3 (1, 0, 981 / 100))))))
       (dot 6 (dot 6 L_spec (Q_spec 2 var_imu_f var_imu_w)) (T L_spec))"
    by (auto simp: d_two_def s_two_def Let_def)
  have "(p_cov s' ! 1) 3 3 = 1 / 25" "(p_cov s' ! 1) 0 0 = 0" "(p_cov s' ! 1) 3 4 = 0"
    unfolding c
    by (simp_all add: madd_def dot_def T_def zeros_def sum6 sum9 L_spec_def Q_spec_def
        var_imu_f_def var_imu_w_def)
  with p rows_ok_two show ?thesis by blast
qed

subsection \<open>C3: the measurement update\<close>

text \<open>
  What lines 153-162 compute. Whenever \<open>inv\<close> returns a matrix \<open>S\<^sup>-\<^sup>1\<close> for
  \<open>S = H P H\<^sup>T + \<sigma>\<^sup>2 I\<^sub>3\<close> (it then is the inverse of \<open>S\<close>), \<open>measurement_update\<close> returns, with
  \<open>K = P H\<^sup>T S\<^sup>-\<^sup>1\<close> and \<open>\<delta>x = K (y - p)\<close>: the position \<open>p + \<delta>x[0:3]\<close>, the velocity
  \<open>v + \<delta>x[3:6]\<close>, the covariance \<open>(I\<^sub>9 - K H) P\<close>, and the orientation that \<open>quat_mult_left\<close>
  returns for the receiver \<open>Quaternion(euler=\<delta>x[6:9])\<close> and the argument \<open>q\<close>: line 160
  reads the three rotation components of the error state as Euler angles.
\<close>

lemma correction_formula:
  assumes "linalg_inv (S_spec sv P) = Inr Sinv"
  shows "(\<forall>i<3. \<forall>j<3. dot 3 (S_spec sv P) Sinv i j = eye 3 i j) \<and>
     measurement_update R sv P y p v q =
       (let K = dot 3 (dot 9 P (T H_spec)) Sinv;
            dx = dotv 3 K (arr3 (vsub y p))
        in Inr (vadd p (slice3 dx 0), vadd v (slice3 dx 3),
                quat_mult_left R (quat_euler R (slice3 dx 6)) q,
                dot 9 (msub (eye 9) (dot 3 K H_spec)) P))"
  using linalg_inv_right[OF assms] measurement_update_eq[OF assms] by blast

text \<open>
  Claim C3 says that the corrected orientation is the quaternion built from the rotation
  vector \<open>\<delta>x[6:9]\<close>, composed on the left of \<open>q\<close>. The position, the velocity and the
  covariance are as the claim says (\<open>correction_formula\<close>); the orientation is not. On the
  symmetric positive semi-definite covariance \<open>P_rot\<close>, variance 1, observation
  \<open>(2, 0, 0)\<close>, position \<open>(0, 0, 0)\<close> and the identity orientation, the error state has
  \<open>\<delta>x[6:9] = (\<pi>, \<pi>, 0)\<close>. The function returns the orientation \<open>(0, 0, 0, -1)\<close>, the
  quaternion of the Euler angles \<open>(\<pi>, \<pi>, 0)\<close>; the quaternion of the rotation vector
  \<open>(\<pi>, \<pi>, 0)\<close> composed on the left of the identity has last component 0. The rest of
  the source treats these components as a rotation vector: line 181 builds the quaternion
  of the rotation vector \<open>\<omega> \<Delta>t\<close> with \<open>Quaternion(axis_angle=...)\<close>, and lines 277-279
  map the rotation block of the covariance to roll, pitch and yaw through
  \<open>rpy_jacobian_axis_angle\<close>.
\<close>

theorem euler_correction_divergence:
  "\<not> isl (measurement_update hamilton 1 P_rot (2, 0, 0) (0, 0, 0) (0, 0, 0) (1, 0, 0, 0)) \<and>
   fst (snd (snd (projr
     (measurement_update hamilton 1 P_rot (2, 0, 0) (0, 0, 0) (0, 0, 0) (1, 0, 0, 0)))))
     = (0, 0, 0, - 1) \<and>
   \<not> isl (q_hat_spec hamilton 1 P_rot (2, 0, 0) (0, 0, 0) (1, 0, 0, 0)) \<and>
   snd (snd (snd (projr (q_hat_spec hamilton 1 P_rot (2, 0, 0) (0, 0, 0) (1, 0, 0, 0))))) = 0"
proof -
  note inv = P_rot_inverse
  have code: "measurement_update hamilton 1 P_rot (2, 0, 0) (0, 0, 0) (0, 0, 0) (1, 0, 0, 0) =
      Inr (vadd (0, 0, 0) (slice3 (dotv 3 (dot 3 (dot 9 P_rot (T H_spec))
              (\<lambda>i j. if i < 3 \<and> j < 3 then adj3 (S_spec 1 P_rot) i j / det3 (S_spec 1 P_rot) else 0))
            (arr3 (vsub (2, 0, 0) (0, 0, 0)))) 0),
           vadd (0, 0, 0) (slice3 (dotv 3 (dot 3 (dot 9 P_rot (T H_spec))
              (\<lambda>i j. if i < 3 \<and> j < 3 then adj3 (S_spec 1 P_rot) i j / det3 (S_spec 1 P_rot) else 0))
            (arr3 (vsub (2, 0, 0) (0, 0, 0)))) 3),
           qmul (euler_quat (pi, pi, 0)) (1, 0, 0, 0),
           dot 9 (msub (eye 9) (dot 3 (dot 3 (dot 9 P_rot (T H_spec))
              (\<lambda>i j. if i < 3 \<and> j < 3 then adj3 (S_spec 1 P_rot) i j / det3 (S_spec 1 P_rot) else 0)) H_spec)) P_rot)"
    unfolding measurement_update_eq[OF inv] Let_def P_rot_error_state by simp
  have spec: "q_hat_spec hamilton 1 P_rot (2, 0, 0) (0, 0, 0) (1, 0, 0, 0) =
      Inr (qmul (axis_angle_quat (pi, pi, 0)) (1, 0, 0, 0))"
    unfolding q_hat_spec_def inv seq_Inr Let_def P_rot_error_state by simp
  have e: "qmul (euler_quat (pi, pi, 0)) (1, 0, 0, 0) = (0, 0, 0, - 1)"
    by (simp add: Let_def)
  note a = axis_angle_no_yaw[of pi pi]
  have 1: "\<not> isl (measurement_update hamilton 1 P_rot (2, 0, 0) (0, 0, 0) (0, 0, 0) (1, 0, 0, 0))"
    unfolding code by simp
  have 2: "fst (snd (snd (projr
      (measurement_update hamilton 1 P_rot (2, 0, 0) (0, 0, 0) (0, 0, 0) (1, 0, 0, 0)))))
      = (0, 0, 0, - 1)"
    unfolding code sum.sel fst_conv snd_conv by (rule e)
  have 3: "\<not> isl (q_hat_spec hamilton 1 P_rot (2, 0, 0) (0, 0, 0) (1, 0, 0, 0))"
    unfolding spec by simp
  have 4: "snd (snd (snd (projr (q_hat_spec hamilton 1 P_rot (2, 0, 0) (0, 0, 0) (1, 0, 0, 0)))))
      = 0"
    unfolding spec sum.sel by (rule a)
  from 1 2 3 4 show ?thesis by blast
qed

subsection \<open>C4: the two gates of a step\<close>

text \<open>
  Claim C4. A step \<open>k \<ge> 1\<close> that returns has first propagated (state \<open>s1\<close>). Exactly when
  the GNSS cursor was below the number of GNSS samples and the GNSS timestamp at the
  cursor equalled the inertial timestamp \<open>k\<close>, it then has run \<open>measurement_update\<close> with
  the GNSS variance on the GNSS sample at the cursor and on row \<open>k\<close> of \<open>s1\<close> (covariance,
  position, velocity, orientation), stored the result at row \<open>k\<close> and advanced the GNSS
  cursor by one (state \<open>s2\<close>). Exactly when the LIDAR cursor was below the number of LIDAR
  timestamps and the LIDAR timestamp at the cursor equalled the inertial timestamp
  \<open>k - 1\<close>, it then has run \<open>measurement_update\<close> with the LIDAR variance on the LIDAR
  sample at the cursor and on row \<open>k\<close> of \<open>s2\<close>, the state and covariance the GNSS gate
  left, stored the result at row \<open>k\<close> and advanced the LIDAR cursor by one.
\<close>

theorem gated_corrections:
  assumes "step R d k s = Inr s'" and "1 \<le> k"
  shows "\<exists>s1 s2. predict R d k s = Inr s1 \<and>
     (if gnss_match d k s
      then \<exists>p v q P.
             measurement_update R var_gnss (p_cov s1 ! k) (sdata (gnss d) ! gnss_i s)
               (p_est s1 ! k) (v_est s1 ! k) (q_est s1 ! k) = Inr (p, v, q, P) \<and>
             s2 = s1\<lparr>p_est := (p_est s1)[k := p], v_est := (v_est s1)[k := v],
                     q_est := (q_est s1)[k := q], p_cov := (p_cov s1)[k := P],
                     gnss_i := gnss_i s + 1\<rparr>
      else s2 = s1) \<and>
     (if lidar_match d k s
      then \<exists>p v q P.
             measurement_update R var_lidar (p_cov s2 ! k) (sdata (lidar d) ! lidar_i s)
               (p_est s2 ! k) (v_est s2 ! k) (q_est s2 ! k) = Inr (p, v, q, P) \<and>
             s' = s2\<lparr>p_est := (p_est s2)[k := p], v_est := (v_est s2)[k := v],
                     q_est := (q_est s2)[k := q], p_cov := (p_cov s2)[k := P],
                     lidar_i := lidar_i s + 1\<rparr>
      else s' = s2) \<and>
     gnss_i s' = (if gnss_match d k s then gnss_i s + 1 else gnss_i s) \<and>
     lidar_i s' = (if lidar_match d k s then lidar_i s + 1 else lidar_i s)"
proof -
  from step_Inr[OF assms] obtain s1 s2 where p: "predict R d k s = Inr s1"
    and G: "if gnss_match d k s
      then \<exists>c. correct R var_gnss (sdata (gnss d) ! gnss_i s) k s1 = Inr c \<and>
               s2 = c\<lparr>gnss_i := gnss_i s + 1\<rparr>
      else s2 = s1"
    and L: "if lidar_match d k s
      then \<exists>c. correct R var_lidar (sdata (lidar d) ! lidar_i s) k s2 = Inr c \<and>
               s' = c\<lparr>lidar_i := lidar_i s + 1\<rparr>
      else s' = s2"
    by blast
  have G': "if gnss_match d k s
      then \<exists>p v q P.
             measurement_update R var_gnss (p_cov s1 ! k) (sdata (gnss d) ! gnss_i s)
               (p_est s1 ! k) (v_est s1 ! k) (q_est s1 ! k) = Inr (p, v, q, P) \<and>
             s2 = s1\<lparr>p_est := (p_est s1)[k := p], v_est := (v_est s1)[k := v],
                     q_est := (q_est s1)[k := q], p_cov := (p_cov s1)[k := P],
                     gnss_i := gnss_i s + 1\<rparr>
      else s2 = s1"
  proof (cases "gnss_match d k s")
    case True
    with G obtain c where c: "correct R var_gnss (sdata (gnss d) ! gnss_i s) k s1 = Inr c"
      and s2: "s2 = c\<lparr>gnss_i := gnss_i s + 1\<rparr>" by auto
    from correct_Inr[OF c] s2 True show ?thesis by (simp del: split_paired_Ex) blast
  next
    case False
    with G show ?thesis by simp
  qed
  have L': "if lidar_match d k s
      then \<exists>p v q P.
             measurement_update R var_lidar (p_cov s2 ! k) (sdata (lidar d) ! lidar_i s)
               (p_est s2 ! k) (v_est s2 ! k) (q_est s2 ! k) = Inr (p, v, q, P) \<and>
             s' = s2\<lparr>p_est := (p_est s2)[k := p], v_est := (v_est s2)[k := v],
                     q_est := (q_est s2)[k := q], p_cov := (p_cov s2)[k := P],
                     lidar_i := lidar_i s + 1\<rparr>
      else s' = s2"
  proof (cases "lidar_match d k s")
    case True
    with L obtain c where c: "correct R var_lidar (sdata (lidar d) ! lidar_i s) k s2 = Inr c"
      and s': "s' = c\<lparr>lidar_i := lidar_i s + 1\<rparr>" by auto
    from correct_Inr[OF c] s' True show ?thesis by (simp del: split_paired_Ex) blast
  next
    case False
    with L show ?thesis by simp
  qed
  from p G' L' step_cursors(1,2)[OF assms] show ?thesis by blast
qed

theorem gated_corrections_witness:
  "\<exists>s1 s2 s' v2 q2 P2 v3 q3 P3.
     step hamilton d_two 1 s_pos = Inr s' \<and> predict hamilton d_two 1 s_pos = Inr s1 \<and>
     p_est s1 ! 1 = (4, 0, 0) \<and> (p_cov s1 ! 1) 0 0 = 5 \<and>
     measurement_update hamilton var_gnss (p_cov s1 ! 1) (5, 0, 0) (p_est s1 ! 1)
       (v_est s1 ! 1) (q_est s1 ! 1) = Inr ((13 / 3, 0, 0), v2, q2, P2) \<and>
     P2 0 0 = 10 / 3 \<and>
     s2 = s1\<lparr>p_est := (p_est s1)[1 := (13 / 3, 0, 0)], v_est := (v_est s1)[1 := v2],
             q_est := (q_est s1)[1 := q2], p_cov := (p_cov s1)[1 := P2], gnss_i := 1\<rparr> \<and>
     p_est s2 ! 1 = (13 / 3, 0, 0) \<and> p_cov s2 ! 1 = P2 \<and>
     measurement_update hamilton var_lidar (p_cov s2 ! 1) (0, 0, 0) (p_est s2 ! 1)
       (v_est s2 ! 1) (q_est s2 ! 1) = Inr ((1, 0, 0), v3, q3, P3) \<and>
     P3 0 0 = 10 / 13 \<and>
     s' = s2\<lparr>p_est := (p_est s2)[1 := (1, 0, 0)], v_est := (v_est s2)[1 := v3],
             q_est := (q_est s2)[1 := q3], p_cov := (p_cov s2)[1 := P3], lidar_i := 1\<rparr> \<and>
     gnss_i s' = 1 \<and> lidar_i s' = 1"
proof -
  from step_pos obtain s1 v2 q2 P2 v3 q3 P3 where
    p: "predict hamilton d_two 1 s_pos = Inr s1"
    and p1: "p_est s1 ! 1 = (4, 0, 0)"
    and blk1: "\<forall>i<3. \<forall>j<3. (p_cov s1 ! 1) i j = (if i = j then 5 else 0)"
    and mu1: "measurement_update hamilton var_gnss (p_cov s1 ! 1) (5, 0, 0) (p_est s1 ! 1)
       (v_est s1 ! 1) (q_est s1 ! 1) = Inr ((13 / 3, 0, 0), v2, q2, P2)"
    and blk2: "\<forall>i<3. \<forall>j<3. P2 i j = (if i = j then 10 / 3 else 0)"
    and mu2: "measurement_update hamilton var_lidar P2 (0, 0, 0) (13 / 3, 0, 0) v2 q2
       = Inr ((1, 0, 0), v3, q3, P3)"
    and blk3: "\<forall>i<3. \<forall>j<3. P3 i j = (if i = j then 10 / 13 else 0)"
    and st: "step hamilton d_two 1 s_pos =
       Inr (s1\<lparr>p_est := (p_est s1)[1 := (1, 0, 0)], v_est := (v_est s1)[1 := v3],
               q_est := (q_est s1)[1 := q3], p_cov := (p_cov s1)[1 := P3],
               gnss_i := 1, lidar_i := 1\<rparr>)"
    by blast
  let ?s' = "s1\<lparr>p_est := (p_est s1)[1 := (1, 0, 0)], v_est := (v_est s1)[1 := v3],
               q_est := (q_est s1)[1 := q3], p_cov := (p_cov s1)[1 := P3],
               gnss_i := 1, lidar_i := 1\<rparr>"
  have m: "gnss_match d_two 1 s_pos" "lidar_match d_two 1 s_pos"
    by (simp_all add: gnss_match_def lidar_match_def d_two_def s_pos_def)
  have y: "sdata (gnss d_two) ! gnss_i s_pos = (5, 0, 0)"
    "sdata (lidar d_two) ! lidar_i s_pos = (0, 0, 0)"
    "gnss_i s_pos + 1 = 1" "lidar_i s_pos + 1 = 1"
    by (simp_all add: d_two_def s_pos_def)
  have len: "length (p_est s1) = 2" "length (v_est s1) = 2" "length (q_est s1) = 2"
    "length (p_cov s1) = 2"
    using predict_cursors(3-6)[OF p le_refl] by (simp_all add: s_pos_def)
  from gated_corrections[OF st le_refl, unfolded if_P[OF m(1)] if_P[OF m(2)] y]
  obtain t1 t2 where tp: "predict hamilton d_two 1 s_pos = Inr t1"
    and G: "\<exists>p v q P.
             measurement_update hamilton var_gnss (p_cov t1 ! 1) (5, 0, 0)
               (p_est t1 ! 1) (v_est t1 ! 1) (q_est t1 ! 1) = Inr (p, v, q, P) \<and>
             t2 = t1\<lparr>p_est := (p_est t1)[1 := p], v_est := (v_est t1)[1 := v],
                     q_est := (q_est t1)[1 := q], p_cov := (p_cov t1)[1 := P],
                     gnss_i := 1\<rparr>"
    and L: "\<exists>p v q P.
             measurement_update hamilton var_lidar (p_cov t2 ! 1) (0, 0, 0)
               (p_est t2 ! 1) (v_est t2 ! 1) (q_est t2 ! 1) = Inr (p, v, q, P) \<and>
             ?s' = t2\<lparr>p_est := (p_est t2)[1 := p], v_est := (v_est t2)[1 := v],
                     q_est := (q_est t2)[1 := q], p_cov := (p_cov t2)[1 := P],
                     lidar_i := 1\<rparr>"
    and cg: "gnss_i ?s' = 1" and cl: "lidar_i ?s' = 1"
    by blast
  from p tp have t1: "t1 = s1" by simp
  from G[unfolded t1 mu1] have t2: "t2 = s1\<lparr>p_est := (p_est s1)[1 := (13 / 3, 0, 0)],
      v_est := (v_est s1)[1 := v2], q_est := (q_est s1)[1 := q2],
      p_cov := (p_cov s1)[1 := P2], gnss_i := 1\<rparr>"
    by (auto simp del: One_nat_def)
  have row2: "p_est t2 ! 1 = (13 / 3, 0, 0)" "v_est t2 ! 1 = v2" "q_est t2 ! 1 = q2"
    "p_cov t2 ! 1 = P2"
    by (simp_all add: t2 len del: One_nat_def)
  from L[unfolded row2 mu2] have fin: "?s' = t2\<lparr>p_est := (p_est t2)[1 := (1, 0, 0)],
      v_est := (v_est t2)[1 := v3], q_est := (q_est t2)[1 := q3],
      p_cov := (p_cov t2)[1 := P3], lidar_i := 1\<rparr>"
    by (auto simp del: One_nat_def)
  have b: "(p_cov s1 ! 1) 0 0 = 5" "P2 0 0 = 10 / 3" "P3 0 0 = 10 / 13"
    using blk1 blk2 blk3 by simp_all
  have mu2': "measurement_update hamilton var_lidar (p_cov t2 ! 1) (0, 0, 0) (p_est t2 ! 1)
       (v_est t2 ! 1) (q_est t2 ! 1) = Inr ((1, 0, 0), v3, q3, P3)"
    unfolding row2 by (rule mu2)
  from st p p1 b mu1 t2 row2(1,4) mu2' fin cg cl show ?thesis by blast
qed

subsection \<open>C5: the GNSS scenario\<close>

text \<open>
  Claim C5. For a covariance whose position block is the identity, variance 1,
  observation \<open>(1, 0, 0)\<close> and estimated position \<open>(0, 0, 0)\<close>: the position block of the
  Kalman gain is \<open>I\<^sub>3 / 2\<close>, the corrected position is \<open>(1/2, 0, 0)\<close> and the position
  block of the corrected covariance is \<open>I\<^sub>3 / 2\<close>.
\<close>

theorem gnss_scenario:
  assumes "\<forall>i<3. \<forall>j<3. P i j = (if i = j then 1 else 0)"
  shows "\<exists>K v' q' P'. k_gain 1 P = Inr K \<and>
     measurement_update R 1 P (1, 0, 0) (0, 0, 0) v q = Inr ((1 / 2, 0, 0), v', q', P') \<and>
     (\<forall>i<3. \<forall>j<3. K i j = (if i = j then 1 / 2 else 0) \<and> P' i j = (if i = j then 1 / 2 else 0))"
proof -
  let ?S = "S_spec 1 P"
  have P: "P i j = (if i = j then 1 else 0)" if "i < 3" "j < 3" for i j
    using assms that by blast
  have S: "?S 0 0 = 2" "?S 0 (Suc 0) = 0" "?S 0 2 = 0" "?S (Suc 0) 0 = 0" "?S (Suc 0) (Suc 0) = 2"
    "?S (Suc 0) 2 = 0" "?S 2 0 = 0" "?S 2 (Suc 0) = 0" "?S 2 2 = 2"
    by (simp_all add: S_spec_eq P)
  have det: "det3 ?S = 8" by (simp add: det3_def S)
  define Sinv where "Sinv = (\<lambda>i j. if i < 3 \<and> j < 3 then adj3 ?S i j / det3 ?S else 0)"
  have inv: "linalg_inv ?S = Inr Sinv"
    by (simp add: linalg_inv_Inr det Sinv_def)
  have Si: "Sinv i j = (if i = j then 1 / 2 else 0)" if "i < 3" "j < 3" for i j
    using lt3_cases[OF that(1)] lt3_cases[OF that(2)]
    by (elim disjE; simp add: Sinv_def det adj3_entries S)
  define K where "K = dot 3 (dot 9 P (T H_spec)) Sinv"
  have kg: "k_gain 1 P = Inr K"
    by (simp add: k_gain_def innovation_cov_spec inv seq_def K_def h_jac_spec)
  have Kij: "K i j = (if i = j then 1 / 2 else 0)" if "i < 3" "j < 3" for i j
    unfolding K_def PHt_eq using that by (simp add: dot_def sum3 P Si)
  define dx where "dx = dotv 3 K (arr3 (vsub (1, 0, 0) (0, 0, 0)))"
  define P' where "P' = dot 9 (msub (eye 9) (dot 3 K H_spec)) P"
  have mu: "measurement_update R 1 P (1, 0, 0) (0, 0, 0) v q =
      Inr (vadd (0, 0, 0) (slice3 dx 0), vadd v (slice3 dx 3),
           quat_mult_left R (quat_euler R (slice3 dx 6)) q, P')"
    by (simp add: measurement_update_eq[OF inv] Let_def K_def dx_def P'_def)
  have ph: "vadd (0, 0, 0) (slice3 dx 0) = (1 / 2, 0, 0)"
    by (simp add: slice3_def dx_def dotv_def sum3 Kij)
  have Pij: "P' i j = (if i = j then 1 / 2 else 0)" if "i < 3" "j < 3" for i j
    using measurement_update_cov[OF inv mu, of i j] that
    by (simp add: PHt_eq sum3 P Si)
  from kg mu[unfolded ph] Kij Pij show ?thesis by blast
qed

theorem gnss_scenario_witness:
  "\<exists>K v' q' P'. k_gain 1 (eye 9) = Inr K \<and>
     measurement_update hamilton 1 (eye 9) (1, 0, 0) (0, 0, 0) (0, 0, 0) (1, 0, 0, 0)
       = Inr ((1 / 2, 0, 0), v', q', P') \<and>
     K 0 0 = 1 / 2 \<and> K 0 1 = 0 \<and> K 2 2 = 1 / 2 \<and> P' 0 0 = 1 / 2 \<and> P' 1 2 = 0"
proof -
  have "\<forall>i<3. \<forall>j<3. eye 9 i j = (if i = j then 1 else 0)"
    by (simp add: eye_def)
  from gnss_scenario[OF this, of hamilton "(0, 0, 0)" "(1, 0, 0, 0)"] obtain K v' q' P' where
    "k_gain 1 (eye 9) = Inr K"
    "measurement_update hamilton 1 (eye 9) (1, 0, 0) (0, 0, 0) (0, 0, 0) (1, 0, 0, 0)
       = Inr ((1 / 2, 0, 0), v', q', P')"
    "\<forall>i<3. \<forall>j<3. K i j = (if i = j then 1 / 2 else 0) \<and> P' i j = (if i = j then 1 / 2 else 0)"
    by blast
  moreover from this(3) have "K 0 0 = 1 / 2" "K 0 1 = 0" "K 2 2 = 1 / 2" "P' 0 0 = 1 / 2"
    "P' 1 2 = 0"
    by simp_all
  ultimately show ?thesis by blast
qed

subsection \<open>C6: the trace of the position block\<close>

text \<open>
  Claim C6, amended. For a variance \<open>\<sigma>\<^sup>2 > 0\<close> and a symmetric positive semi-definite
  covariance \<open>P\<close> the measurement update returns, and the trace of the position block of
  the corrected covariance is strictly less than that of \<open>P\<close> when the position block of
  \<open>P\<close> is not zero, and equal to it when the position block of \<open>P\<close> is zero.
\<close>

theorem correction_trace:
  assumes sv: "0 < sv" and sym: "symmetric9 P" and psd: "psd9 P"
  shows "\<exists>p' v' q' P'. measurement_update R sv P y p v q = Inr (p', v', q', P') \<and>
     ((\<exists>i<3. \<exists>j<3. P i j \<noteq> 0) \<longrightarrow> trace_pos P' < trace_pos P) \<and>
     ((\<forall>i<3. \<forall>j<3. P i j = 0) \<longrightarrow> trace_pos P' = trace_pos P)"
proof -
  define a b c d e f where abc: "a = P 0 0 + sv" "b = P 0 1" "c = P 0 2" "d = P 1 1 + sv"
    "e = P 1 2" "f = P 2 2 + sv"
  define D where "D = a * d * f + 2 * b * c * e - a * e * e - d * c * c - f * b * b"
  let ?S = "S_spec sv P"
  have s: "P 1 0 = P 0 1" "P 2 0 = P 0 2" "P 2 1 = P 1 2"
    using sym by (simp_all add: symmetric9_def)
  have S: "?S 0 0 = a" "?S 0 (Suc 0) = b" "?S 0 2 = c" "?S (Suc 0) 0 = b" "?S (Suc 0) (Suc 0) = d"
    "?S (Suc 0) 2 = e" "?S 2 0 = c" "?S 2 (Suc 0) = e" "?S 2 2 = f"
    using s by (simp_all add: S_spec_eq abc)
  have pd: "0 < qf3 a b c d e f x y z" if "x \<noteq> 0 \<or> y \<noteq> 0 \<or> z \<noteq> 0" for x y z
    unfolding abc using S_spec_pd[OF sym psd sv that] .
  have det: "det3 ?S = D"
    by (simp add: det3_def S D_def algebra_simps)
  have D: "0 < D"
    unfolding D_def using pd3_minors(3)[of a b c d e f] pd by blast
  define Sinv where "Sinv = (\<lambda>i j. if i < 3 \<and> j < 3 then adj3 ?S i j / det3 ?S else 0)"
  have inv: "linalg_inv ?S = Inr Sinv"
    using D by (simp add: linalg_inv_Inr det Sinv_def)
  have Si: "Sinv 0 0 = (d * f - e * e) / D" "Sinv 0 1 = (c * e - b * f) / D"
    "Sinv 0 2 = (b * e - c * d) / D" "Sinv 1 1 = (a * f - c * c) / D"
    "Sinv 1 2 = (b * c - a * e) / D" "Sinv 2 2 = (a * d - b * b) / D"
    "Sinv 1 0 = Sinv 0 1" "Sinv 2 0 = Sinv 0 2" "Sinv 2 1 = Sinv 1 2"
    by (simp_all add: Sinv_def det adj3_entries S algebra_simps)
  obtain p' v' q' P' where mu: "measurement_update R sv P y p v q = Inr (p', v', q', P')"
    by (simp add: measurement_update_eq[OF inv] Let_def)
  define r where "r i = qf3 (d * f - e * e) (c * e - b * f) (b * e - c * d) (a * f - c * c)
     (b * c - a * e) (a * d - b * b) (P i 0) (P i 1) (P i 2)" for i
  have diag: "P' i i = P i i - r i / D" if "i < 3" for i
  proof -
    have "P' i i = P i i - (\<Sum>m<3. (\<Sum>k<3. P i k * Sinv k m) * P m i)"
      using measurement_update_cov[OF inv mu, of i i] that by simp
    also have "(\<Sum>m<3. (\<Sum>k<3. P i k * Sinv k m) * P m i) =
        (\<Sum>m<3. (\<Sum>k<3. P i k * Sinv k m) * P i m)"
      by (rule sum.cong) (use sym that in \<open>auto simp: symmetric9_def\<close>)
    also have "\<dots> = qf3 (Sinv 0 0) (Sinv 0 1) (Sinv 0 2) (Sinv 1 1) (Sinv 1 2) (Sinv 2 2)
        (P i 0) (P i 1) (P i 2)"
      by (rule quad_sum3[OF Si(7) Si(8) Si(9)])
    also have "\<dots> = r i / D"
      unfolding Si r_def by (rule qf3_divide)
    finally show ?thesis .
  qed
  have r0: "0 \<le> r i" for i
  proof (cases "P i 0 \<noteq> 0 \<or> P i 1 \<noteq> 0 \<or> P i 2 \<noteq> 0")
    case True
    then show ?thesis unfolding r_def using pd3_adj[of a b c d e f] pd by (simp add: less_imp_le)
  next
    case False
    then show ?thesis by (simp add: r_def qf3_zero)
  qed
  have rpos: "0 < r i" if "P i 0 \<noteq> 0 \<or> P i 1 \<noteq> 0 \<or> P i 2 \<noteq> 0" for i
    unfolding r_def using pd3_adj[of a b c d e f] pd that by simp
  have tr: "trace_pos P' = trace_pos P - (r 0 + r 1 + r 2) / D"
    using diag[of 0] diag[of 1] diag[of 2] by (simp add: trace_pos_def add_divide_distrib)
  have strict: "trace_pos P' < trace_pos P" if "\<exists>i<3. \<exists>j<3. P i j \<noteq> 0"
  proof -
    from that obtain i j where ij: "i < 3" "j < 3" "P i j \<noteq> 0" by blast
    from ij(2,3) have "P i 0 \<noteq> 0 \<or> P i 1 \<noteq> 0 \<or> P i 2 \<noteq> 0"
      using lt3_cases[of j] by auto
    then have "0 < r i" by (rule rpos)
    moreover have "r i \<le> r 0 + r 1 + r 2"
      using lt3_cases[OF ij(1)] r0[of 0] r0[of 1] r0[of 2] by auto
    ultimately have "0 < (r 0 + r 1 + r 2) / D" using D by simp
    then show ?thesis unfolding tr by simp
  qed
  have same: "trace_pos P' = trace_pos P" if "\<forall>i<3. \<forall>j<3. P i j = 0"
  proof -
    have "r 0 = 0" "r 1 = 0" "r 2 = 0" using that by (simp_all add: r_def qf3_zero)
    then show ?thesis unfolding tr by simp
  qed
  from mu strict same show ?thesis by blast
qed

theorem correction_trace_witness:
  "0 < (1::real) \<and> symmetric9 (eye 9) \<and> psd9 (eye 9) \<and>
   (\<exists>p' v' q' P'.
      measurement_update hamilton 1 (eye 9) (1, 0, 0) (0, 0, 0) (0, 0, 0) (1, 0, 0, 0)
        = Inr (p', v', q', P') \<and>
      trace_pos P' < trace_pos (eye 9))"
proof -
  have nz: "\<exists>i<3. \<exists>j<3. eye 9 i j \<noteq> 0"
    by (rule exI[of _ 0]) (simp add: eye_def)
  from correction_trace[OF _ symmetric9_eye psd9_eye, of 1 hamilton "(1, 0, 0)" "(0, 0, 0)"
      "(0, 0, 0)" "(1, 0, 0, 0)"] nz
  have "\<exists>p' v' q' P'.
      measurement_update hamilton 1 (eye 9) (1, 0, 0) (0, 0, 0) (0, 0, 0) (1, 0, 0, 0)
        = Inr (p', v', q', P') \<and>
      trace_pos P' < trace_pos (eye 9)"
    by (simp del: split_paired_Ex) blast
  then show ?thesis using symmetric9_eye psd9_eye by simp
qed

text \<open>
  Claim C6 as stated asks for a strict decrease for every symmetric positive
  semi-definite covariance. The zero matrix is one (line 141 starts the filter with it,
  and the propagation keeps its position block zero): the update returns, and the trace
  stays 0.
\<close>

theorem correction_trace_counterexample:
  "0 < (1::real) \<and> symmetric9 zeros \<and> psd9 zeros \<and>
   \<not> isl (measurement_update hamilton 1 zeros (1, 0, 0) (0, 0, 0) (0, 0, 0) (1, 0, 0, 0)) \<and>
   \<not> trace_pos (snd (snd (snd (projr
        (measurement_update hamilton 1 zeros (1, 0, 0) (0, 0, 0) (0, 0, 0) (1, 0, 0, 0))))))
      < trace_pos zeros"
proof -
  have "\<forall>i<3. \<forall>j<3. zeros i j = 0" by (simp add: zeros_def)
  from measurement_update_zero_block[OF this, of 1 hamilton "(1, 0, 0)" "(0, 0, 0)" "(0, 0, 0)"
      "(1, 0, 0, 0)"]
  obtain p' v' q' P' where
    mu: "measurement_update hamilton 1 zeros (1, 0, 0) (0, 0, 0) (0, 0, 0) (1, 0, 0, 0)
         = Inr (p', v', q', P')"
    and z: "\<forall>i<3. \<forall>j<3. P' i j = 0"
    by (simp del: split_paired_Ex) blast
  from z have "trace_pos P' = 0" by (simp add: trace_pos_def)
  moreover have "trace_pos zeros = 0" by (simp add: trace_pos_def zeros_def)
  ultimately show ?thesis
    by (simp add: mu symmetric9_zeros psd9_zeros)
qed

subsection \<open>C7: unit norm of the stored orientation\<close>

text \<open>
  Claim C7. Over the reals, and for a rotation algebra whose constructors return unit
  quaternions and whose products multiply the norms: the initial row has unit norm; if
  the rows below \<open>k\<close> have unit norm, so have the rows up to \<open>k\<close> right after the
  propagation of step \<open>k\<close>, and again after every correction of row \<open>k\<close>; and every row of
  the state a run returns has unit norm.
\<close>

theorem unit_norm_invariant:
  assumes "unit_preserving R"
  shows "(\<forall>s0. init R d = Inr s0 \<longrightarrow> unit_rows 1 s0) \<and>
     (\<forall>k s s1. 1 \<le> k \<and> unit_rows k s \<and> predict R d k s = Inr s1 \<longrightarrow> unit_rows (Suc k) s1) \<and>
     (\<forall>k sv y s1 s2. unit_rows (Suc k) s1 \<and> correct R sv y k s1 = Inr s2
        \<longrightarrow> unit_rows (Suc k) s2) \<and>
     (\<forall>s'. run R d = Inr s' \<longrightarrow> unit_rows (length (sdata (imu_f d))) s')"
  using init_unit[OF assms] predict_unit[OF assms] correct_unit[OF assms] run_unit[OF assms]
  by blast

theorem unit_norm_invariant_witness:
  "unit_preserving hamilton \<and> unit_rows 1 s_two \<and>
   (\<exists>s1 c. predict hamilton d_two 1 s_two = Inr s1 \<and> unit_rows 2 s1 \<and>
      correct hamilton var_gnss (5, 0, 0) 1 s1 = Inr c \<and> unit_rows 2 c) \<and>
   \<not> isl (run hamilton d_back) \<and> unit_rows 2 (projr (run hamilton d_back))"
proof -
  note inv = unit_norm_invariant[OF unit_preserving_hamilton]
  have u: "unit_rows 1 s_two" by (simp add: unit_rows_def s_two_def)
  from step_two obtain s' where s: "step hamilton d_two 1 s_two = Inr s'" ..
  have m: "gnss_match d_two 1 s_two"
    by (simp add: gnss_match_def d_two_def s_two_def)
  have y: "sdata (gnss d_two) ! gnss_i s_two = (5, 0, 0)"
    by (simp add: d_two_def s_two_def)
  from step_Inr[OF s le_refl] obtain s1 c where p: "predict hamilton d_two 1 s_two = Inr s1"
    and c: "correct hamilton var_gnss (5, 0, 0) 1 s1 = Inr c"
    unfolding if_P[OF m] y by blast
  from inv[of d_two] u p have u1: "unit_rows (Suc 1) s1" by blast
  from inv[of d_two] u1 c have u2: "unit_rows (Suc 1) c" by blast
  from run_back obtain r where r: "run hamilton d_back = Inr r" by blast
  from inv[of d_back] r have "unit_rows (length (sdata (imu_f d_back))) r" by blast
  then have u3: "unit_rows 2 r" by (simp add: d_back_def numeral_2_eq_2)
  from u1 u2 have "unit_rows 2 s1" "unit_rows 2 c" by (simp_all add: numeral_2_eq_2)
  with p c u u3 show ?thesis using unit_preserving_hamilton by (auto simp: r)
qed

subsection \<open>C8: a zero time step\<close>

text \<open>
  Claim C8. For a rotation algebra in which the quaternion of the zero axis-angle vector
  is neutral as the receiver of \<open>quat_mult_right\<close>: the update of lines 175-182 with
  \<open>\<Delta>t = 0\<close> returns the position, velocity and orientation it was given, for every
  inertial sample pair; and a propagation step between two equal timestamps stores at
  row \<open>k\<close> the position, velocity and orientation of row \<open>k - 1\<close>.
\<close>

theorem zero_timestep:
  assumes "\<forall>q. quat_mult_right R (quat_axis_angle R (0, 0, 0)) q = q"
  shows "imu_update R 0 p v q f w = (p, v, q) \<and>
     (rows_ok d k s \<and> st (imu_f d) ! k = st (imu_f d) ! (k - 1) \<longrightarrow>
        (\<exists>s'. predict R d k s = Inr s' \<and> p_est s' ! k = p_est s ! (k - 1) \<and>
           v_est s' ! k = v_est s ! (k - 1) \<and> q_est s' ! k = q_est s ! (k - 1)))"
proof -
  have a: "quat_mult_right R (quat_axis_angle R (0, 0, 0)) q = q" for q
    using assms by blast
  have z: "imu_update R 0 p v q f w = (p, v, q)" for p v q f w
    by (cases p; cases v; cases w; cases "mv3 (to_mat R q) f")
       (simp add: imu_update_def g_def Let_def a)
  have "\<exists>s'. predict R d k s = Inr s' \<and> p_est s' ! k = p_est s ! (k - 1) \<and>
           v_est s' ! k = v_est s ! (k - 1) \<and> q_est s' ! k = q_est s ! (k - 1)"
    if ok: "rows_ok d k s" and t: "st (imu_f d) ! k = st (imu_f d) ! (k - 1)"
  proof -
    from ok have "k < length (p_est s)" "k < length (v_est s)" "k < length (q_est s)"
      by (simp_all add: rows_ok_def)
    then show ?thesis
      unfolding predict_eq[OF ok] using t by (simp add: Let_def z)
  qed
  with z show ?thesis by blast
qed

theorem zero_timestep_witness:
  "imu_update hamilton 0 (1, 2, 3) (4, 5, 6) (1, 0, 0, 0) (7, 8, 9) (1, 1, 1)
     = ((1, 2, 3), (4, 5, 6), (1, 0, 0, 0))"
  using zero_timestep[of hamilton "(1, 2, 3)" "(4, 5, 6)" "(1, 0, 0, 0)" "(7, 8, 9)" "(1, 1, 1)"]
    hamilton_zero_rotation
  by blast

subsection \<open>C9: a non-positive time step\<close>

text \<open>
  Claim C9, amended. The loop does not check the time step. When
  \<open>\<Delta>t = t[k] - t[k-1] \<le> 0\<close> and the rows of step \<open>k\<close> are in range, the propagation
  succeeds and stores at row \<open>k\<close> the nominal state and the covariance that lines 175-193
  compute with that \<open>\<Delta>t\<close>; the only exceptions of the loop are an index out of range and
  a singular innovation covariance.
\<close>

theorem nonpositive_timestep:
  assumes "rows_ok d k s" and "st (imu_f d) ! k \<le> st (imu_f d) ! (k - 1)"
  shows "\<exists>s'. predict R d k s = Inr s' \<and>
     (let dt = st (imu_f d) ! k - st (imu_f d) ! (k - 1);
          q = q_est s ! (k - 1); f = sdata (imu_f d) ! (k - 1)
      in dt \<le> 0 \<and>
         (p_est s' ! k, v_est s' ! k, q_est s' ! k) =
           imu_update R dt (p_est s ! (k - 1)) (v_est s ! (k - 1)) q f
             (sdata (imu_w d) ! (k - 1)) \<and>
         p_cov s' ! k = cov_update R dt (mv3 (to_mat R q) f) (p_cov s ! (k - 1)))"
proof -
  from assms(1) have "k < length (p_est s)" "k < length (v_est s)" "k < length (q_est s)"
    "k < length (p_cov s)"
    by (simp_all add: rows_ok_def)
  then show ?thesis
    unfolding predict_eq[OF assms(1)] using assms(2) by (simp add: Let_def)
qed

theorem nonpositive_timestep_witness:
  "rows_ok d_back 1 s_two \<and> st (imu_f d_back) ! 1 \<le> st (imu_f d_back) ! 0 \<and>
   (\<exists>s'. predict hamilton d_back 1 s_two = Inr s' \<and> p_est s' ! 1 = (- 1, 0, - 4.905) \<and>
      v_est s' ! 1 = (1, 0, 9.81))"
proof -
  have t: "st (imu_f d_back) ! 1 \<le> st (imu_f d_back) ! (1 - 1)"
    by (simp add: d_back_def)
  from nonpositive_timestep[OF rows_ok_back t, of hamilton] rows_ok_back show ?thesis
    by (auto simp: d_back_def s_two_def Let_def imu_update_def g_def)
qed

text \<open>
  Claim C9 as stated asks for a fatal fault that aborts the run. On two inertial
  samples with the timestamps 1 and 0 the run returns, and row 1 holds the state
  propagated with \<open>\<Delta>t = -1\<close>.
\<close>

theorem timestep_fault_counterexample:
  "st (imu_f d_back) ! 1 - st (imu_f d_back) ! 0 \<le> 0 \<and> \<not> isl (run hamilton d_back) \<and>
   p_est (projr (run hamilton d_back)) ! 1 = (- 1, 0, - 4.905)"
proof -
  from run_back obtain s' where "run hamilton d_back = Inr s'"
    and "p_est s' ! 1 = (- 1, 0, - 4.905)" by blast
  then show ?thesis by (simp add: d_back_def)
qed

subsection \<open>C10: the samples at the two ends of the inertial timeline\<close>

text \<open>
  Claim C10. A cursor only moves forward, by one, when its sample is consumed; so the
  sample of index \<open>j\<close> has been consumed by a run exactly when the final cursor is above
  \<open>j\<close>. For strictly increasing inertial timestamps and a run that returns: a GNSS sample
  stamped with the first inertial timestamp is not consumed, and a LIDAR sample stamped
  with the inertial timestamp of index \<open>N - 1\<close> is not consumed, \<open>N\<close> being the number of
  inertial samples.
\<close>

theorem edge_samples:
  assumes "run R d = Inr s'" and "sorted_wrt (<) (st (imu_f d))"
  shows "(\<forall>j. j < length (st (gnss d)) \<and> st (gnss d) ! j = st (imu_f d) ! 0
            \<longrightarrow> gnss_i s' \<le> j) \<and>
     (\<forall>j. j < length (st (lidar d)) \<and>
          st (lidar d) ! j = st (imu_f d) ! (length (sdata (imu_f d)) - 1)
            \<longrightarrow> lidar_i s' \<le> j)"
  using gnss_cursor_bound[OF assms] lidar_cursor_bound[OF assms] by blast

theorem edge_samples_witness:
  "sorted_wrt (<) (st (imu_f d_edge)) \<and> \<not> isl (run hamilton d_edge) \<and>
   st (gnss d_edge) ! 0 = st (imu_f d_edge) ! 0 \<and>
   st (lidar d_edge) ! 0 = st (imu_f d_edge) ! 2 \<and>
   gnss_i (projr (run hamilton d_edge)) = 0 \<and> lidar_i (projr (run hamilton d_edge)) = 0"
proof -
  from run_edge obtain s' where r: "run hamilton d_edge = Inr s'" ..
  have s: "sorted_wrt (<) (st (imu_f d_edge))" by (simp add: d_edge_def)
  from edge_samples[OF r s] have "gnss_i s' \<le> 0" "lidar_i s' \<le> 0"
    by (simp_all add: d_edge_def)
  then show ?thesis using s by (simp add: r) (simp add: d_edge_def)
qed

end
